theory Spec2Isabelle
  imports Complex_Main "HOL-Library.AList"
begin

section \<open>SOAP I/O analysis: result model, rank decomposition and orchestrators\<close>

text \<open>
  A shallow embedding of \<^verbatim>\<open>dace/transformation/estimator/soap/io_analysis.py\<close>.

  Conventions of the embedding.
  \<^item> A Python \<^verbatim>\<open>dict\<close> is an association list in insertion order with unique keys;
    \<^verbatim>\<open>d[k] = v\<close> is \<open>AList.update k v d\<close> (overwrite in place, or append), and
    \<^verbatim>\<open>d[k]\<close> is \<open>map_of d k\<close>, absent keys raising \<^verbatim>\<open>KeyError\<close>.
  \<^item> An exception is the left summand of a sum type.
  \<^item> The decomposition fields are lists of fully substituted sympy \<^verbatim>\<open>Integer\<close>s, as
    their annotation \<^verbatim>\<open>List[sp.Expr]\<close> says, and the rank is a Python \<^verbatim>\<open>int\<close>. A number
    is modelled by its value and, where the arithmetic of the code depends on it, by its
    Python type. Iterator symbols are modelled by their names (\<^verbatim>\<open>str(var)\<close>).
  \<^item> \<^verbatim>\<open>print\<close> is an output event returned next to the result.
\<close>

subsection \<open>Errors and diagnostics\<close>

datatype error =
    ZeroDivisionError
  | OverflowError
  | IndexError
  | KeyError string
  | UnboundLocalError string
  | AssertionError
  | AttributeError string
  | ExternalError string

text \<open>
  The one message \<^verbatim>\<open>get_data_decomposition\<close> prints:
  \<^verbatim>\<open>"Decomposition uses only {} processors. Given rank {} will be idle!"\<close>
  with the processor count and the rank.
\<close>

datatype diagnostic = IdleRank int int

subsection \<open>The result model\<close>

type_synonym rng = "int \<times> int"
type_synonym rngs = "(string \<times> rng) list"
type_synonym distribution = "(string \<times> rngs) list"

text \<open>
  \<^verbatim>\<open>IOAnalysisSubgraph\<close>: \<open>'e\<close> is the type of symbolic expressions, \<open>'p\<close> the type of
  the values stored under each access string of \<^verbatim>\<open>input_arrays\<close>.
\<close>

record ('e, 'p) IOAnalysisSubgraph =
  name :: int
  Q :: 'e
  rho :: 'e
  input_arrays :: "(string \<times> (string \<times> 'p) list) list"
  variables :: "string list"
  inner_tile :: "'e list"
  outer_tile :: "'e list"
  loc_domain_dims :: "int list"
  p_grid :: "int list"
  dimensions_ordered :: "int list"

subsection \<open>\<^verbatim>\<open>get_data_decomposition\<close>\<close>

text \<open>
  The exact integers of the code are of two Python types: the \<^verbatim>\<open>int\<close> of the rank and of
  \<^verbatim>\<open>sp.prod([])\<close>, and the sympy \<^verbatim>\<open>Integer\<close> of the list entries and of everything computed
  from one.
\<close>

datatype whole = PyInt int | Integer int

fun whole_val :: "whole \<Rightarrow> int" where
  "whole_val (PyInt n) = n"
| "whole_val (Integer n) = n"

text \<open>\<^verbatim>\<open>sp.prod\<close> of a list of sympy \<^verbatim>\<open>Integer\<close>s: the Python \<^verbatim>\<open>int\<close> 1 for the empty list.\<close>

definition sp_prod :: "int list \<Rightarrow> whole" where
  "sp_prod xs = (if xs = [] then PyInt 1 else Integer (prod_list xs))"

text \<open>
  A float with an integer value is modelled by that value. \<open>round53\<close> rounds an integer
  to 53 significant bits, to nearest and ties to even, as the conversion of a Python
  \<^verbatim>\<open>int\<close> to \<^verbatim>\<open>float\<close>, the float operations and sympy's \<^verbatim>\<open>Float\<close> of default precision do;
  \<open>excess a\<close> is the number of bits of \<open>a\<close> beyond 53.
\<close>

function excess :: "nat \<Rightarrow> nat" where
  "excess a = (if a < 2 ^ 53 then 0 else Suc (excess (a div 2)))"
  by pat_completeness auto
termination
  by (relation "measure (\<lambda>a. a)") auto

declare excess.simps [simp del]

definition round53 :: "int \<Rightarrow> int" where
  "round53 n =
     (let a = nat \<bar>n\<bar>; e = excess a; q = a div 2 ^ e; r = a mod 2 ^ e;
          q' = (if 2 ^ e < 2 * r \<or> (2 * r = 2 ^ e \<and> odd q) then q + 1 else q)
      in sgn n * int (q' * 2 ^ e))"

text \<open>The quotient \<^verbatim>\<open>div\<close> returns: a sympy \<^verbatim>\<open>Integer\<close>, or a Python \<^verbatim>\<open>float\<close>.\<close>

datatype quotient = Whole int | Float int

text \<open>
  \<^verbatim>\<open>div = lambda x,y: (x-x%y)/y\<close>. Python's \<^verbatim>\<open>%\<close> takes the sign of the divisor, as \<open>mod\<close>
  on \<open>int\<close> does, and raises on a zero divisor; the dividend of \<^verbatim>\<open>/\<close> is then a multiple of
  the divisor. With a sympy \<^verbatim>\<open>Integer\<close> among the operands \<^verbatim>\<open>/\<close> is exact and gives an
  \<^verbatim>\<open>Integer\<close>. On two Python \<^verbatim>\<open>int\<close>s \<^verbatim>\<open>/\<close> is true division: it gives the \<^verbatim>\<open>float\<close> nearest to
  the quotient, and raises when that is beyond the range of a \<^verbatim>\<open>float\<close>.
\<close>

definition div_py :: "whole \<Rightarrow> whole \<Rightarrow> error + quotient" where
  "div_py x y =
     (if whole_val y = 0 then Inl ZeroDivisionError
      else
        let q = (whole_val x - whole_val x mod whole_val y) div whole_val y in
        case (x, y) of
          (PyInt a, PyInt b) \<Rightarrow>
            if 2 ^ 1024 \<le> \<bar>round53 q\<bar> then Inl OverflowError else Inr (Float (round53 q))
        | _ \<Rightarrow> Inr (Whole q))"

text \<open>
  The loop of lines 39-43 over \<^verbatim>\<open>enumerate(self.p_grid)\<close>: the list argument is
  \<^verbatim>\<open>p_grid[dim_num:]\<close>, so its tail is \<^verbatim>\<open>p_grid[dim_num+1:]\<close>; the result is the part of
  \<^verbatim>\<open>p_pos\<close> appended from \<^verbatim>\<open>dim_num\<close> on. After an exact quotient line 43 leaves a sympy
  \<^verbatim>\<open>Integer\<close> in \<^verbatim>\<open>pp\<close>. A float quotient needs two Python \<^verbatim>\<open>int\<close>s, so an empty suffix: it
  comes in the last iteration, and the float that line 43 then leaves in \<^verbatim>\<open>pp\<close> is not
  read again.
\<close>

fun p_pos_loop :: "int list \<Rightarrow> whole \<Rightarrow> error + quotient list" where
  "p_pos_loop [] pp = Inr []"
| "p_pos_loop (dim_size # rest) pp =
     (case div_py pp (sp_prod rest) of
        Inl e \<Rightarrow> Inl e
      | Inr (Float f) \<Rightarrow> Inr [Float f]
      | Inr (Whole p_dim) \<Rightarrow>
          (case p_pos_loop rest (Integer (whole_val pp - p_dim * whole_val (sp_prod rest))) of
             Inl e \<Rightarrow> Inl e
           | Inr ps \<Rightarrow> Inr (Whole p_dim # ps)))"

text \<open>
  The pair of line 46,
  \<^verbatim>\<open>(p_pos[i]*loc_domain_dims[i], min((p_pos[i] + 1)*loc_domain_dims[i], dim_size))\<close>, as
  values. With a sympy \<^verbatim>\<open>Integer\<close> coordinate it is exact. With a float coordinate the sum
  is a float sum, and each product is a sympy \<^verbatim>\<open>Float\<close>: the \<^verbatim>\<open>Integer\<close> factor is rounded to
  53 bits, then the product is. \<^verbatim>\<open>min\<close> compares exactly.
\<close>

fun block :: "quotient \<Rightarrow> int \<Rightarrow> int \<Rightarrow> rng" where
  "block (Whole c) l dim_size = (c * l, min ((c + 1) * l) dim_size)"
| "block (Float f) l dim_size =
     (round53 (f * round53 l), min (round53 (round53 (f + 1) * round53 l)) dim_size)"

text \<open>The dict comprehension of lines 45-47; \<open>i\<close> is the \<^verbatim>\<open>enumerate\<close> counter, the list
  is what is left of \<^verbatim>\<open>zip(self.variables, self.dimensions_ordered)\<close>.\<close>

fun iter_ranges_loop ::
  "nat \<Rightarrow> (string \<times> int) list \<Rightarrow> quotient list \<Rightarrow> int list \<Rightarrow> rngs \<Rightarrow> error + rngs" where
  "iter_ranges_loop i [] p_pos loc acc = Inr acc"
| "iter_ranges_loop i ((var, dim_size) # rest) p_pos loc acc =
     (if i < length p_pos \<and> i < length loc
      then iter_ranges_loop (Suc i) rest p_pos loc
             (AList.update var (block (p_pos ! i) (loc ! i) dim_size) acc)
      else Inl IndexError)"

text \<open>\<^verbatim>\<open>access.split('*')\<close>.\<close>

fun split_star :: "string \<Rightarrow> string list" where
  "split_star [] = [[]]"
| "split_star (c # cs) =
     (if c = CHR ''*'' then [] # split_star cs
      else (case split_star cs of
              [] \<Rightarrow> [[c]]
            | w # ws \<Rightarrow> (c # w) # ws))"

text \<open>Lines 54-55: \<^verbatim>\<open>for it in access.split('*'): rngs[it] = iter_ranges[it]\<close>.\<close>

fun its_loop :: "string list \<Rightarrow> rngs \<Rightarrow> rngs \<Rightarrow> error + rngs" where
  "its_loop [] iter_ranges rs = Inr rs"
| "its_loop (it # its) iter_ranges rs =
     (case map_of iter_ranges it of
        None \<Rightarrow> Inl (KeyError it)
      | Some r \<Rightarrow> its_loop its iter_ranges (AList.update it r rs))"

text \<open>Lines 52-55. The local \<^verbatim>\<open>rngs\<close> is function-scoped: \<open>None\<close> while it is unbound,
  and rebound to a fresh dict at the start of every access.\<close>

fun accesses_loop :: "(string \<times> 'p) list \<Rightarrow> rngs \<Rightarrow> rngs option \<Rightarrow> error + rngs option" where
  "accesses_loop [] iter_ranges rs = Inr rs"
| "accesses_loop ((access, pars) # rest) iter_ranges rs =
     (case its_loop (split_star access) iter_ranges [] of
        Inl e \<Rightarrow> Inl e
      | Inr rs' \<Rightarrow> accesses_loop rest iter_ranges (Some rs'))"

text \<open>Lines 51-56; reading the unbound \<^verbatim>\<open>rngs\<close> at line 56 raises.\<close>

fun arrays_loop ::
  "(string \<times> (string \<times> 'p) list) list \<Rightarrow> rngs \<Rightarrow> rngs option \<Rightarrow> distribution
     \<Rightarrow> error + distribution" where
  "arrays_loop [] iter_ranges rs par_distribution = Inr par_distribution"
| "arrays_loop ((arr, accesses) # rest) iter_ranges rs par_distribution =
     (case accesses_loop accesses iter_ranges rs of
        Inl e \<Rightarrow> Inl e
      | Inr None \<Rightarrow> Inl (UnboundLocalError ''rngs'')
      | Inr (Some rs') \<Rightarrow>
          arrays_loop rest iter_ranges (Some rs') (AList.update arr rs' par_distribution))"

text \<open>The table \<^verbatim>\<open>iter_ranges\<close> of a rank that passed the idle check (lines 38-47).\<close>

definition iter_ranges_of :: "('e, 'p) IOAnalysisSubgraph \<Rightarrow> int \<Rightarrow> error + rngs" where
  "iter_ranges_of self pp =
     (case p_pos_loop (p_grid self) (PyInt pp) of
        Inl e \<Rightarrow> Inl e
      | Inr p_pos \<Rightarrow>
          iter_ranges_loop 0 (zip (variables self) (dimensions_ordered self))
            p_pos (loc_domain_dims self) [])"

definition get_data_decomposition ::
  "('e, 'p) IOAnalysisSubgraph \<Rightarrow> int \<Rightarrow> diagnostic list \<times> (error + distribution)" where
  "get_data_decomposition self pp =
     (if prod_list (p_grid self) \<le> pp
      then ([IdleRank (prod_list (p_grid self)) pp], Inr [])
      else ([], case iter_ranges_of self pp of
                  Inl e \<Rightarrow> Inl e
                | Inr iter_ranges \<Rightarrow> arrays_loop (input_arrays self) iter_ranges None []))"

subsection \<open>Observations on one rank\<close>

text \<open>Coordinate \<open>i\<close> of \<^verbatim>\<open>p_pos\<close> and the range stored in \<^verbatim>\<open>iter_ranges\<close> under the name
  of variable \<open>i\<close>, for a rank that passed the idle check; \<open>None\<close> when the code raises
  before, or has no such dimension.\<close>

definition coord :: "('e, 'p) IOAnalysisSubgraph \<Rightarrow> int \<Rightarrow> nat \<Rightarrow> quotient option" where
  "coord self pp i =
     (case p_pos_loop (p_grid self) (PyInt pp) of
        Inl e \<Rightarrow> None
      | Inr p_pos \<Rightarrow> if i < length p_pos then Some (p_pos ! i) else None)"

definition iter_range :: "('e, 'p) IOAnalysisSubgraph \<Rightarrow> int \<Rightarrow> nat \<Rightarrow> rng option" where
  "iter_range self pp i =
     (case iter_ranges_of self pp of
        Inl e \<Rightarrow> None
      | Inr iter_ranges \<Rightarrow>
          if i < length (variables self) then map_of iter_ranges (variables self ! i) else None)"

text \<open>The range that the distribution returned for a rank holds for an iterator name in
  the entry of an array; \<open>None\<close> when the call raises or there is no such entry.\<close>

definition assigned ::
  "('e, 'p) IOAnalysisSubgraph \<Rightarrow> int \<Rightarrow> string \<Rightarrow> string \<Rightarrow> rng option" where
  "assigned self pp arr it =
     (case snd (get_data_decomposition self pp) of
        Inl e \<Rightarrow> None
      | Inr par_distribution \<Rightarrow>
          (case map_of par_distribution arr of
             None \<Rightarrow> None
           | Some rs \<Rightarrow> map_of rs it))"

text \<open>The integers of a half-open range \<open>[a, b)\<close>.\<close>

fun range_set :: "rng option \<Rightarrow> int set" where
  "range_set None = {}"
| "range_set (Some (a, b)) = {a..<b}"

text \<open>The four sequences are index-aligned, of length \<open>N\<close>, and the iterator names are
  pairwise different (they are the keys of \<^verbatim>\<open>iter_ranges\<close>).\<close>

definition aligned :: "('e, 'p) IOAnalysisSubgraph \<Rightarrow> nat \<Rightarrow> bool" where
  "aligned self N \<longleftrightarrow>
     length (p_grid self) = N \<and> length (loc_domain_dims self) = N \<and>
     length (dimensions_ordered self) = N \<and> length (variables self) = N \<and>
     distinct (variables self)"

text \<open>A valid decomposition: aligned, grid and local extents positive, and the local
  blocks of a dimension reach its global extent.\<close>

definition valid_decomposition :: "('e, 'p) IOAnalysisSubgraph \<Rightarrow> nat \<Rightarrow> bool" where
  "valid_decomposition self N \<longleftrightarrow>
     aligned self N \<and>
     (\<forall>i<N. 0 < p_grid self ! i \<and> 0 < loc_domain_dims self ! i \<and>
        dimensions_ordered self ! i \<le> loc_domain_dims self ! i * p_grid self ! i)"

subsection \<open>The decomposition as the specification words it\<close>

text \<open>Rank unranking, step 2 of the specification: \<open>coord[i] = floor(rank / suffixProduct)\<close>,
  then \<open>rank -= coord[i] * suffixProduct\<close>. The quotient is taken in the reals and
  rounded down.\<close>

fun unrank_spec :: "int list \<Rightarrow> int \<Rightarrow> int list" where
  "unrank_spec [] rank = []"
| "unrank_spec (g # processorGrid) rank =
     (let suffixProduct = prod_list processorGrid;
          c = \<lfloor>real_of_int rank / real_of_int suffixProduct\<rfloor>
      in c # unrank_spec processorGrid (rank - c * suffixProduct))"

text \<open>Per-dimension range, step 3 of the specification.\<close>

definition range_spec :: "int \<Rightarrow> int \<Rightarrow> int \<Rightarrow> rng" where
  "range_spec c localDomainDim globalDim =
     (c * localDomainDim, min ((c + 1) * localDomainDim) globalDim)"

subsection \<open>Concrete subgraphs\<close>

text \<open>Concrete example A of the specification, with one array read at \<open>i*j\<close>.\<close>

definition exampleA :: "(unit, unit) IOAnalysisSubgraph" where
  "exampleA = \<lparr>name = 0, Q = (), rho = (), input_arrays = [(''A'', [(''i*j'', ())])],
      variables = [''i'', ''j''], inner_tile = [], outer_tile = [],
      loc_domain_dims = [4, 4], p_grid = [2, 2], dimensions_ordered = [8, 8]\<rparr>"

text \<open>An uneven decomposition: \<open>7\<close> rows in two blocks of \<open>4\<close>, \<open>5\<close> columns in three
  blocks of \<open>2\<close>.\<close>

definition uneven :: "(unit, unit) IOAnalysisSubgraph" where
  "uneven = \<lparr>name = 0, Q = (), rho = (), input_arrays = [(''A'', [(''i*j'', ())])],
      variables = [''i'', ''j''], inner_tile = [], outer_tile = [],
      loc_domain_dims = [4, 2], p_grid = [2, 3], dimensions_ordered = [7, 5]\<rparr>"

text \<open>One dimension of extent \<open>2 ^ 60\<close>, one iteration per rank.\<close>

definition one_dimension :: "(unit, unit) IOAnalysisSubgraph" where
  "one_dimension = \<lparr>name = 0, Q = (), rho = (), input_arrays = [(''A'', [(''i'', ())])],
      variables = [''i''], inner_tile = [], outer_tile = [],
      loc_domain_dims = [1], p_grid = [2 ^ 60], dimensions_ordered = [2 ^ 60]\<rparr>"

text \<open>One array read through two access terms, on a single rank.\<close>

definition two_terms :: "(unit, unit) IOAnalysisSubgraph" where
  "two_terms = \<lparr>name = 0, Q = (), rho = (),
      input_arrays = [(''A'', [(''i*k'', ()), (''j'', ())])],
      variables = [''i'', ''j'', ''k''], inner_tile = [], outer_tile = [],
      loc_domain_dims = [4, 4, 8], p_grid = [1, 1, 1], dimensions_ordered = [4, 4, 8]\<rparr>"

text \<open>An access term naming an iterator \<open>z\<close> that is not among the variables.\<close>

definition unknown_symbol :: "(unit, unit) IOAnalysisSubgraph" where
  "unknown_symbol = \<lparr>name = 0, Q = (), rho = (),
      input_arrays = [(''A'', [(''i*j'', ())]), (''B'', [(''i*z'', ())])],
      variables = [''i'', ''j''], inner_tile = [], outer_tile = [],
      loc_domain_dims = [4, 4], p_grid = [2, 2], dimensions_ordered = [8, 8]\<rparr>"

text \<open>The same unknown iterator, after an array without access terms.\<close>

definition unknown_after_empty :: "(unit, unit) IOAnalysisSubgraph" where
  "unknown_after_empty = \<lparr>name = 0, Q = (), rho = (),
      input_arrays = [(''A'', []), (''B'', [(''i*z'', ())])],
      variables = [''i'', ''j''], inner_tile = [], outer_tile = [],
      loc_domain_dims = [4, 4], p_grid = [2, 2], dimensions_ordered = [8, 8]\<rparr>"

text \<open>Arrays without access terms: the first array, and a later one.\<close>

definition first_empty :: "(unit, unit) IOAnalysisSubgraph" where
  "first_empty = \<lparr>name = 0, Q = (), rho = (),
      input_arrays = [(''A'', []), (''B'', [(''i*j'', ())])],
      variables = [''i'', ''j''], inner_tile = [], outer_tile = [],
      loc_domain_dims = [4, 4], p_grid = [2, 2], dimensions_ordered = [8, 8]\<rparr>"

definition later_empty :: "(unit, unit) IOAnalysisSubgraph" where
  "later_empty = \<lparr>name = 0, Q = (), rho = (),
      input_arrays = [(''A'', [(''j'', ()), (''i'', ())]), (''B'', [])],
      variables = [''i'', ''j''], inner_tile = [], outer_tile = [],
      loc_domain_dims = [4, 4], p_grid = [2, 2], dimensions_ordered = [8, 8]\<rparr>"


subsection \<open>Collaborators of the orchestrators\<close>

text \<open>
  The orchestrators call code that lies outside \<^verbatim>\<open>io_analysis.py\<close>: \<^verbatim>\<open>parse_params\<close>, the
  \<^verbatim>\<open>Solver\<close> and its methods, \<^verbatim>\<open>sdfg_gen\<close>, the \<^verbatim>\<open>SDG\<close> constructor, \<^verbatim>\<open>networkx\<close>,
  \<^verbatim>\<open>calculate_IO_of_SDG\<close> and \<^verbatim>\<open>init_decomposition\<close>. Their results are parameters of
  the model, gathered in a record; every one of these calls may raise. Of their classes
  only the attributes that \<^verbatim>\<open>io_analysis.py\<close> reads or writes are kept. Every call to a
  collaborator is logged as an event when it is made, whether it returns or raises, so
  that the order of the calls can be stated.
\<close>

record Solver =
  cached_only :: bool
  caching_solutions :: bool

record SOAPParameters =
  only_cached :: bool
  caching_solver_solutions :: bool
  remoteMatlab :: bool
  solver :: "Solver option"

text \<open>The value of a \<^verbatim>\<open>params\<close> argument: the default \<^verbatim>\<open>[]\<close>, or a parameter object.\<close>

datatype params_arg = EmptyList | Params SOAPParameters

text \<open>A live subgraph of the SDG, as \<^verbatim>\<open>calculate_IO_of_SDG\<close> returns it.\<close>

record ('e, 'p) subgraph =
  sg_name :: int
  sg_Q :: 'e
  rhoOpts :: 'e
  sg_variables :: "string list"
  sg_inner_tile :: "'e list"
  sg_outer_tile :: "'e list"
  phis :: "(string \<times> (string \<times> 'p) list) list"
  sg_loc_domain_dims :: "int list"
  sg_p_grid :: "int list"
  sg_dimensions_ordered :: "int list"

text \<open>\<^verbatim>\<open>IOAnalysis\<close>; \<open>'d\<close> is the type of the SDG.\<close>

record ('d, 'e, 'p) IOAnalysis =
  an_name :: string
  an_Q :: 'e
  sdg :: 'd
  subgraphs :: "('e, 'p) IOAnalysisSubgraph list"

datatype event =
    ParseParams
  | SolverInit bool bool
  | StartSolver bool
  | SetTimeout int
  | SdfgGen string
  | SDGInit
  | CountComponents
  | CalculateIO
  | EndSolver
  | InitDecomposition int

record ('g, 'd, 'e, 'p) collaborators =
  parse_params :: "error + SOAPParameters"
  new_Solver :: "bool \<Rightarrow> bool \<Rightarrow> error + Solver"
  start_solver :: "Solver \<Rightarrow> bool \<Rightarrow> error + unit"
  set_timeout :: "Solver \<Rightarrow> int \<Rightarrow> error + unit"
  end_solver :: "Solver \<Rightarrow> error + unit"
  sdfg_gen :: "string \<Rightarrow> error + 'g"
  SDG :: "'g \<Rightarrow> SOAPParameters \<Rightarrow> error + 'd"
  number_weakly_connected_components :: "'d \<Rightarrow> error + nat"
  calculate_IO_of_SDG :: "'d \<Rightarrow> SOAPParameters \<Rightarrow> error + ('e \<times> ('e, 'p) subgraph list)"
  init_decomposition :: "('e, 'p) subgraph \<Rightarrow> SOAPParameters \<Rightarrow> error + ('e, 'p) subgraph"

text \<open>A run: the events so far, and an exception or a value. Sequencing stops at the
  first exception and keeps the events up to it.\<close>

type_synonym 'a run = "event list \<times> (error + 'a)"

definition ret :: "'a \<Rightarrow> 'a run" where
  "ret x = ([], Inr x)"

definition raise :: "error \<Rightarrow> 'a run" where
  "raise e = ([], Inl e)"

definition call :: "event \<Rightarrow> error + 'a \<Rightarrow> 'a run" where
  "call ev r = ([ev], r)"

definition bind_run :: "'a run \<Rightarrow> ('a \<Rightarrow> 'b run) \<Rightarrow> 'b run" where
  "bind_run m f =
     (case m of
        (tr, Inl e) \<Rightarrow> (tr, Inl e)
      | (tr, Inr x) \<Rightarrow> (case f x of (tr', r) \<Rightarrow> (tr @ tr', r)))"

subsection \<open>The orchestrators\<close>

text \<open>Lines 85-89 and 127-131: parse the configuration, build the solver, start it, set
  its timeout to 300 and store it in the parameters.\<close>

definition open_session :: "('g, 'd, 'e, 'p) collaborators \<Rightarrow> SOAPParameters run" where
  "open_session env =
     bind_run (call ParseParams (parse_params env))
       (\<lambda>params.
     bind_run (call (SolverInit (only_cached params) (caching_solver_solutions params))
                 (new_Solver env (only_cached params) (caching_solver_solutions params)))
       (\<lambda>solver.
     bind_run (call (StartSolver (remoteMatlab params))
                 (start_solver env solver (remoteMatlab params)))
       (\<lambda>_.
     bind_run (call (SetTimeout 300) (set_timeout env solver 300))
       (\<lambda>_.
     ret (params\<lparr>solver := Some solver\<rparr>)))))"

text \<open>Line 95, \<^verbatim>\<open>params.solver.end_solver()\<close>.\<close>

definition params_end_solver ::
  "('g, 'd, 'e, 'p) collaborators \<Rightarrow> SOAPParameters \<Rightarrow> unit run" where
  "params_end_solver env params =
     (case solver params of
        None \<Rightarrow> raise (AttributeError ''end_solver'')
      | Some s \<Rightarrow> call EndSolver (end_solver env s))"

text \<open>Lines 99-101 and 139-141: the snapshot of a subgraph, its three decomposition
  fields at their defaults, the empty list.\<close>

definition snapshot :: "('e, 'p) subgraph \<Rightarrow> ('e, 'p) IOAnalysisSubgraph" where
  "snapshot subgr =
     \<lparr>name = sg_name subgr, Q = sg_Q subgr, rho = rhoOpts subgr, input_arrays = phis subgr,
      variables = sg_variables subgr, inner_tile = sg_inner_tile subgr,
      outer_tile = sg_outer_tile subgr,
      loc_domain_dims = [], p_grid = [], dimensions_ordered = []\<rparr>"

text \<open>Lines 104-106 and 145-147.\<close>

definition copy_decomposition ::
  "('e, 'p) subgraph \<Rightarrow> ('e, 'p) IOAnalysisSubgraph \<Rightarrow> ('e, 'p) IOAnalysisSubgraph" where
  "copy_decomposition subgr io_res_sg =
     io_res_sg\<lparr>loc_domain_dims := sg_loc_domain_dims subgr, p_grid := sg_p_grid subgr,
               dimensions_ordered := sg_dimensions_ordered subgr\<rparr>"

text \<open>The loop of lines 98-107, in \<^verbatim>\<open>perform_soap_analysis\<close>: the copy is inside the
  \<^verbatim>\<open>if generate_schedule\<close>.\<close>

fun subgraphs_loop ::
  "('g, 'd, 'e, 'p) collaborators \<Rightarrow> SOAPParameters \<Rightarrow> bool \<Rightarrow> ('e, 'p) subgraph list
     \<Rightarrow> ('e, 'p) IOAnalysisSubgraph list run" where
  "subgraphs_loop env params generate_schedule [] = ret []"
| "subgraphs_loop env params generate_schedule (subgr # rest) =
     bind_run
       (if generate_schedule
        then bind_run (call (InitDecomposition (sg_name subgr))
                         (init_decomposition env subgr params))
               (\<lambda>subgr'. ret (copy_decomposition subgr' (snapshot subgr)))
        else ret (snapshot subgr))
       (\<lambda>io_res_sg.
          bind_run (subgraphs_loop env params generate_schedule rest)
            (\<lambda>subgraphs_res. ret (io_res_sg # subgraphs_res)))"

text \<open>The loop of lines 138-148, in \<^verbatim>\<open>perform_soap_analysis_einsum\<close>: the copy is after
  the \<^verbatim>\<open>if generate_schedule\<close>, not inside it.\<close>

fun subgraphs_loop_einsum ::
  "('g, 'd, 'e, 'p) collaborators \<Rightarrow> SOAPParameters \<Rightarrow> bool \<Rightarrow> ('e, 'p) subgraph list
     \<Rightarrow> ('e, 'p) IOAnalysisSubgraph list run" where
  "subgraphs_loop_einsum env params generate_schedule [] = ret []"
| "subgraphs_loop_einsum env params generate_schedule (subgr # rest) =
     bind_run
       (if generate_schedule
        then call (InitDecomposition (sg_name subgr)) (init_decomposition env subgr params)
        else ret subgr)
       (\<lambda>subgr'.
          bind_run (subgraphs_loop_einsum env params generate_schedule rest)
            (\<lambda>subgraphs_res.
               ret (copy_decomposition subgr' (snapshot subgr) # subgraphs_res)))"

text \<open>
  Lines 84-109, the body of \<^verbatim>\<open>perform_soap_analysis\<close>, run from a given state of its local
  name \<^verbatim>\<open>params\<close>: \<open>None\<close> when the name is unbound, where reading it raises. A parameter
  object is true in a condition, the empty list is false.
\<close>

definition soap_analysis_from ::
  "('g, 'd, 'e, 'p) collaborators \<Rightarrow> params_arg option \<Rightarrow> 'g \<Rightarrow> bool
     \<Rightarrow> ('d, 'e, 'p) IOAnalysis run" where
  "soap_analysis_from env params0 sdfg generate_schedule =
     (case params0 of
        None \<Rightarrow> raise (UnboundLocalError ''params'')
      | Some pa \<Rightarrow>
          bind_run (case pa of EmptyList \<Rightarrow> open_session env | Params p \<Rightarrow> ret p)
            (\<lambda>params.
          bind_run (call SDGInit (SDG env sdfg params))
            (\<lambda>sdg.
          bind_run (call CountComponents (number_weakly_connected_components env sdg))
            (\<lambda>n.
          if n \<noteq> 1
          then raise AssertionError
          else
          bind_run (call CalculateIO (calculate_IO_of_SDG env sdg params))
            (\<lambda>(Q, subgraphs).
          bind_run (params_end_solver env params)
            (\<lambda>_.
          bind_run (subgraphs_loop env params generate_schedule subgraphs)
            (\<lambda>subgraphs_res.
          ret \<lparr>an_name = ''SDFG'', an_Q = Q, sdg = sdg, subgraphs = subgraphs_res\<rparr>)))))))"

text \<open>
  \<^verbatim>\<open>perform_soap_analysis(sdfg, generate_schedule = False)\<close>: the signature binds \<^verbatim>\<open>sdfg\<close>
  and \<^verbatim>\<open>generate_schedule\<close> only. The body assigns \<^verbatim>\<open>params\<close>, which makes the name local
  to the function, and it is unbound when line 84 reads it.
\<close>

definition perform_soap_analysis ::
  "('g, 'd, 'e, 'p) collaborators \<Rightarrow> 'g \<Rightarrow> bool \<Rightarrow> ('d, 'e, 'p) IOAnalysis run" where
  "perform_soap_analysis env sdfg generate_schedule =
     soap_analysis_from env None sdfg generate_schedule"

text \<open>\<^verbatim>\<open>perform_soap_analysis_einsum(einsum_string, params = [], generate_schedule = True)\<close>,
  lines 126-150.\<close>

definition perform_soap_analysis_einsum ::
  "('g, 'd, 'e, 'p) collaborators \<Rightarrow> string \<Rightarrow> params_arg \<Rightarrow> bool
     \<Rightarrow> ('d, 'e, 'p) IOAnalysis run" where
  "perform_soap_analysis_einsum env einsum_string pa generate_schedule =
     bind_run (case pa of EmptyList \<Rightarrow> open_session env | Params p \<Rightarrow> ret p)
       (\<lambda>params.
     bind_run (call (SdfgGen einsum_string) (sdfg_gen env einsum_string))
       (\<lambda>sdfg.
     bind_run (call SDGInit (SDG env sdfg params))
       (\<lambda>sdg.
     bind_run (call CalculateIO (calculate_IO_of_SDG env sdg params))
       (\<lambda>(Q, subgraphs).
     bind_run (subgraphs_loop_einsum env params generate_schedule subgraphs)
       (\<lambda>subgraphs_res.
     ret \<lparr>an_name = ''SDFG'', an_Q = Q, sdg = sdg, subgraphs = subgraphs_res\<rparr>)))))"

text \<open>The two entry points called with their default arguments.\<close>

definition perform_soap_analysis_default ::
  "('g, 'd, 'e, 'p) collaborators \<Rightarrow> 'g \<Rightarrow> ('d, 'e, 'p) IOAnalysis run" where
  "perform_soap_analysis_default env sdfg = perform_soap_analysis env sdfg False"

definition perform_soap_analysis_einsum_default ::
  "('g, 'd, 'e, 'p) collaborators \<Rightarrow> string \<Rightarrow> ('d, 'e, 'p) IOAnalysis run" where
  "perform_soap_analysis_einsum_default env einsum_string =
     perform_soap_analysis_einsum env einsum_string EmptyList True"

subsection \<open>Observations on a run\<close>

fun is_init_decomposition :: "event \<Rightarrow> bool" where
  "is_init_decomposition (InitDecomposition n) = True"
| "is_init_decomposition ev = False"

subsection \<open>Concrete collaborators\<close>

definition cfg :: SOAPParameters where
  "cfg = \<lparr>only_cached = False, caching_solver_solutions = True, remoteMatlab = False,
          solver = None\<rparr>"

text \<open>A live subgraph on one rank, and the same subgraph decomposed over a 2 by 2 grid.\<close>

definition live :: "(int, unit) subgraph" where
  "live = \<lparr>sg_name = 0, sg_Q = 7, rhoOpts = 2, sg_variables = [''i'', ''j''],
      sg_inner_tile = [], sg_outer_tile = [], phis = [(''A'', [(''i*j'', ())])],
      sg_loc_domain_dims = [8, 8], sg_p_grid = [1, 1], sg_dimensions_ordered = [8, 8]\<rparr>"

definition decomposed :: "(int, unit) subgraph \<Rightarrow> (int, unit) subgraph" where
  "decomposed subgr =
     subgr\<lparr>sg_loc_domain_dims := [4, 4], sg_p_grid := [2, 2], sg_dimensions_ordered := [8, 8]\<rparr>"

text \<open>Collaborators that never raise; the SDG is represented by the number \<open>n\<close> of its
  weakly connected components.\<close>

definition env_ok :: "nat \<Rightarrow> (unit, nat, int, unit) collaborators" where
  "env_ok n =
     \<lparr>parse_params = Inr cfg,
      new_Solver = (\<lambda>c s. Inr \<lparr>cached_only = c, caching_solutions = s\<rparr>),
      start_solver = (\<lambda>sv remote. Inr ()),
      set_timeout = (\<lambda>sv t. Inr ()),
      end_solver = (\<lambda>sv. Inr ()),
      sdfg_gen = (\<lambda>s. Inr ()),
      SDG = (\<lambda>g p. Inr n),
      number_weakly_connected_components = (\<lambda>d. Inr d),
      calculate_IO_of_SDG = (\<lambda>d p. Inr (7, [live])),
      init_decomposition = (\<lambda>subgr p. Inr (decomposed subgr))\<rparr>"

text \<open>The same with a solver that times out inside \<^verbatim>\<open>calculate_IO_of_SDG\<close>.\<close>

definition env_solver_fails :: "(unit, nat, int, unit) collaborators" where
  "env_solver_fails =
     (env_ok 1)\<lparr>calculate_IO_of_SDG := (\<lambda>d p. Inl (ExternalError ''SolverTimeout''))\<rparr>"

text \<open>The same with an SDG constructor that raises.\<close>

definition env_sdg_fails :: "(unit, nat, int, unit) collaborators" where
  "env_sdg_fails = (env_ok 1)\<lparr>SDG := (\<lambda>g p. Inl (ExternalError ''SDG''))\<rparr>"

section \<open>Properties of the decomposition\<close>

subsection \<open>Integer division\<close>

lemma whole_val_sp_prod [simp]: "whole_val (sp_prod xs) = prod_list xs"
  by (simp add: sp_prod_def)

lemma div_py_Integer:
  "whole_val y \<noteq> 0 \<Longrightarrow> div_py (Integer x) y = Inr (Whole (x div whole_val y))"
  by (simp add: div_py_def minus_mod_eq_mult_div)

text \<open>A float quotient comes from two Python \<^verbatim>\<open>int\<close>s, so in the last iteration of the
  loop only.\<close>

lemma div_py_Float_last:
  "div_py pp (sp_prod rest) = Inr (Float f) \<Longrightarrow> rest = [] \<and> (\<exists>n. pp = PyInt n)"
  by (cases pp) (auto simp add: div_py_def sp_prod_def Let_def split: if_splits)

lemma int_div_less:
  assumes "0 < s" "r < d * s"
  shows "r div s < (d::int)"
proof (rule ccontr)
  assume "\<not> r div s < d"
  then have "d \<le> r div s" by simp
  then have "d * s \<le> r div s * s" using assms(1) by (simp add: mult_right_mono)
  also have "\<dots> \<le> r"
    using div_mult_mod_eq [of r s] pos_mod_sign [OF assms(1), of r] by linarith
  finally show False using assms(2) by simp
qed

lemma block_unique:
  assumes "0 < (l::int)" "c * l \<le> x" "x < (c + 1) * l"
  shows "x div l = c"
proof (rule int_div_pos_eq [where r = "x - c * l"])
  show "x = l * c + (x - c * l)" by (simp add: mult.commute)
  show "0 \<le> x - c * l" using assms(2) by simp
  show "x - c * l < l" using assms(3) by (simp add: algebra_simps)
qed

lemma prod_list_pos: "\<forall>x\<in>set P. (0::int) < x \<Longrightarrow> 0 < prod_list P"
  by (induction P) simp_all

subsection \<open>Rounding to 53 bits\<close>

lemma excess_small: "a < 2 ^ 53 \<Longrightarrow> excess a = 0"
  by (simp add: excess.simps)

lemma excess_unique:
  "a div 2 ^ e < 2 ^ 53 \<Longrightarrow> (e = 0 \<or> 2 ^ 53 \<le> a div 2 ^ (e - 1)) \<Longrightarrow> excess a = e"
proof (induction e arbitrary: a)
  case 0
  then show ?case by (simp add: excess_small)
next
  case (Suc e)
  have "a div 2 ^ e \<le> a" by simp
  moreover have "2 ^ 53 \<le> a div 2 ^ e" using Suc.prems(2) by simp
  ultimately have a: "2 ^ 53 \<le> a" by (rule order_trans [rotated])
  have d: "(a div 2) div 2 ^ e = a div 2 ^ Suc e" by (simp add: div_mult2_eq)
  have "excess (a div 2) = e"
  proof (rule Suc.IH)
    show "a div 2 div 2 ^ e < 2 ^ 53" using Suc.prems(1) d by simp
    show "e = 0 \<or> 2 ^ 53 \<le> a div 2 div 2 ^ (e - 1)"
    proof (cases e)
      case 0
      then show ?thesis by simp
    next
      case (Suc e')
      have "a div 2 div 2 ^ e' = a div 2 ^ Suc e'" by (simp add: div_mult2_eq)
      with Suc.prems(2) Suc show ?thesis by simp
    qed
  qed
  with a show ?case by (subst excess.simps) simp
qed

lemma excess_large:
  "2 ^ 53 \<le> a \<Longrightarrow> 1 \<le> excess a \<and> 2 ^ 52 \<le> a div 2 ^ excess a \<and> a div 2 ^ excess a < 2 ^ 53"
proof (induction a rule: excess.induct)
  case (1 a)
  have e: "excess a = Suc (excess (a div 2))" using "1.prems" by (subst excess.simps) simp
  have d: "a div 2 ^ Suc (excess (a div 2)) = (a div 2) div 2 ^ excess (a div 2)"
    by (simp add: div_mult2_eq)
  show ?case
  proof (cases "a div 2 < 2 ^ 53")
    case True
    then have "excess (a div 2) = 0" by (rule excess_small)
    with e True "1.prems" show ?thesis by simp
  next
    case False
    then have "2 ^ 53 \<le> a div 2" by simp
    with "1.IH" "1.prems" have "2 ^ 52 \<le> (a div 2) div 2 ^ excess (a div 2) \<and>
        (a div 2) div 2 ^ excess (a div 2) < 2 ^ 53" by simp
    with e d show ?thesis by simp
  qed
qed

lemma round53_exact: "\<bar>n\<bar> < 2 ^ 53 \<Longrightarrow> round53 n = n"
proof -
  assume "\<bar>n\<bar> < 2 ^ 53"
  then have "nat \<bar>n\<bar> < 2 ^ 53" by (simp add: nat_less_iff)
  then have "excess (nat \<bar>n\<bar>) = 0" by (rule excess_small)
  then show ?thesis by (simp add: round53_def Let_def sgn_if)
qed

lemma excess_values:
  "excess (2 ^ 53) = 1"
  "excess (2 ^ 53 + 1) = 1"
  by (rule excess_unique; simp)+

lemma round53_values:
  "round53 1 = 1"
  "round53 (2 ^ 53) = 2 ^ 53"
  "round53 (2 ^ 53 + 1) = 2 ^ 53"
proof -
  show "round53 1 = 1" by (rule round53_exact) simp
  have n: "nat \<bar>2 ^ 53\<bar> = 2 ^ 53" "nat \<bar>2 ^ 53 + 1\<bar> = 2 ^ 53 + 1"
    by (simp_all add: nat_add_distrib nat_power_eq)
  show "round53 (2 ^ 53) = 2 ^ 53"
    unfolding round53_def n Let_def excess_values by simp
  show "round53 (2 ^ 53 + 1) = 2 ^ 53"
    unfolding round53_def n Let_def excess_values by simp
qed

lemma round53_form:
  assumes "2 ^ 53 \<le> n"
  shows "\<exists>e q. round53 n = int (q * 2 ^ e) \<and> 1 \<le> e \<and> 2 ^ 52 \<le> q \<and> q \<le> 2 ^ 53"
proof -
  let ?a = "nat \<bar>n\<bar>"
  let ?e = "excess ?a"
  let ?q = "?a div 2 ^ ?e"
  let ?r = "?a mod 2 ^ ?e"
  let ?q' = "if 2 ^ ?e < 2 * ?r \<or> (2 * ?r = 2 ^ ?e \<and> odd ?q) then ?q + 1 else ?q"
  have n: "0 < n" using assms by (smt (verit) zero_less_power)
  have "(2::int) ^ 53 = int (2 ^ 53)" by simp
  then have a: "2 ^ 53 \<le> ?a" using assms n by (simp add: le_nat_iff)
  from excess_large [OF a] have e: "1 \<le> ?e" "2 ^ 52 \<le> ?q" "?q < 2 ^ 53" by simp_all
  have q': "2 ^ 52 \<le> ?q'" "?q' \<le> 2 ^ 53" using e by auto
  have "round53 n = int (?q' * 2 ^ ?e)" using n by (simp add: round53_def Let_def)
  with e(1) q' show ?thesis by blast
qed

lemma round53_of_form:
  assumes e: "1 \<le> e" and q: "2 ^ 52 \<le> q" "q \<le> 2 ^ 53"
  shows "round53 (int (q * 2 ^ e)) = int (q * 2 ^ e)"
proof -
  let ?a = "q * 2 ^ e"
  have a: "nat \<bar>int ?a\<bar> = ?a" by (simp only: abs_of_nat nat_int)
  have pos: "0 < int ?a" using q(1) by simp
  show ?thesis
  proof (cases "q < 2 ^ 53")
    case True
    have "2 ^ e = (2::nat) * 2 ^ (e - 1)" using e by (cases e) simp_all
    then have "?a div 2 ^ (e - 1) = 2 * q"
      by (simp add: mult.assoc [symmetric] mult.commute)
    then have "2 ^ 53 \<le> ?a div 2 ^ (e - 1)" using q(1) by simp
    moreover have "?a div 2 ^ e < 2 ^ 53" using True by simp
    ultimately have ex: "excess ?a = e" by (intro excess_unique) simp_all
    show ?thesis using pos unfolding round53_def a Let_def ex by simp
  next
    case False
    then have q53: "q = 2 ^ 53" using q(2) by simp
    have "?a = 2 ^ 52 * 2 ^ Suc e" using q53 by simp
    then have d: "?a div 2 ^ Suc e = 2 ^ 52" "?a mod 2 ^ Suc e = 0" by simp_all
    have d': "?a div 2 ^ (Suc e - 1) = 2 ^ 53" using q53 by simp
    have ex: "excess ?a = Suc e"
      by (rule excess_unique) (simp_all only: d d', simp_all)
    show ?thesis using pos unfolding round53_def a Let_def ex d by (simp add: q53)
  qed
qed

lemma round53_idem: "2 ^ 53 \<le> n \<Longrightarrow> round53 (round53 n) = round53 n"
  using round53_form [of n] round53_of_form by auto

lemma round53_large: "2 ^ 53 \<le> n \<Longrightarrow> 2 ^ 53 \<le> round53 n"
proof -
  assume "2 ^ 53 \<le> n"
  from round53_form [OF this] obtain e q where
    f: "round53 n = int (q * 2 ^ e)" "1 \<le> e" "2 ^ 52 \<le> q" by blast
  have "(2::nat) ^ 1 \<le> 2 ^ e" using f(2) by (intro power_increasing) simp_all
  then have "2 ^ 52 * (2::nat) \<le> q * 2 ^ e" using f(3) by (intro mult_mono) simp_all
  then have "(2::nat) ^ 53 \<le> q * 2 ^ e" by simp
  then have "int (2 ^ 53) \<le> int (q * 2 ^ e)" by (rule iffD2 [OF of_nat_le_iff])
  with f(1) show ?thesis by simp
qed

lemma round53_nonneg: "0 \<le> n \<Longrightarrow> 0 \<le> round53 n"
  by (simp add: round53_def Let_def sgn_if)

lemma round53_le_double:
  assumes "0 \<le> n"
  shows "round53 n \<le> 2 * n"
proof (cases "n < 2 ^ 53")
  case True
  with assms have "round53 n = n" by (intro round53_exact) simp
  with assms show ?thesis by simp
next
  case False
  define a where "a = nat \<bar>n\<bar>"
  define e where "e = excess a"
  define q where "q = a div 2 ^ e"
  define q' where "q' = (if 2 ^ e < 2 * (a mod 2 ^ e) \<or> (2 * (a mod 2 ^ e) = 2 ^ e \<and> odd q)
    then q + 1 else q)"
  have n: "0 < n" using False by (smt (verit) zero_less_power)
  have "(2::int) ^ 53 = int (2 ^ 53)" by simp
  then have a: "2 ^ 53 \<le> a" using False n by (simp add: a_def le_nat_iff)
  from excess_large [OF a] have q: "2 ^ 52 \<le> q" by (simp add: q_def e_def)
  have A: "q * 2 ^ e \<le> a" by (simp add: q_def)
  have "1 * 2 ^ e \<le> q * 2 ^ e" using q by (intro mult_right_mono) simp_all
  then have B: "2 ^ e \<le> q * 2 ^ e" by simp
  have "q' \<le> q + 1" by (simp add: q'_def)
  then have "q' * 2 ^ e \<le> (q + 1) * 2 ^ e" by (rule mult_right_mono) simp
  also have "\<dots> = q * 2 ^ e + 2 ^ e" by (simp add: algebra_simps)
  also have "\<dots> \<le> a + a"
  proof (rule add_mono)
    show "q * 2 ^ e \<le> a" by (rule A)
    show "2 ^ e \<le> a" by (rule order_trans [OF B A])
  qed
  finally have "q' * 2 ^ e \<le> 2 * a" by simp
  then have "int (q' * 2 ^ e) \<le> int (2 * a)" by (rule iffD2 [OF of_nat_le_iff])
  moreover have "round53 n = int (q' * 2 ^ e)"
    using n by (simp add: round53_def Let_def a_def e_def q_def q'_def)
  moreover have "int (2 * a) = 2 * n" using n by (simp add: a_def)
  ultimately show ?thesis by simp
qed

subsection \<open>Rank unranking on exact quotients\<close>

lemma p_pos_loop_Integer_Cons:
  "prod_list rest \<noteq> 0 \<Longrightarrow>
   p_pos_loop (d # rest) (Integer pp) =
     (case p_pos_loop rest (Integer (pp mod prod_list rest)) of
        Inl e \<Rightarrow> Inl e
      | Inr ps \<Rightarrow> Inr (Whole (pp div prod_list rest) # ps))"
  by (simp add: div_py_Integer minus_div_mult_eq_mod)

text \<open>With two or more dimensions the first suffix product is a sympy \<^verbatim>\<open>Integer\<close>, and
  the Python \<^verbatim>\<open>int\<close> of the rank behaves as an \<^verbatim>\<open>Integer\<close>.\<close>

lemma p_pos_loop_PyInt:
  "rest \<noteq> [] \<Longrightarrow> p_pos_loop (d # rest) (PyInt pp) = p_pos_loop (d # rest) (Integer pp)"
  by (simp add: div_py_def sp_prod_def)

lemma p_pos_loop_two_dimensions:
  "2 \<le> length P \<Longrightarrow> p_pos_loop P (PyInt pp) = p_pos_loop P (Integer pp)"
proof (cases P)
  case Nil
  then show ?thesis by simp
next
  case (Cons d rest)
  assume "2 \<le> length P"
  with Cons have "rest \<noteq> []" by auto
  with Cons show ?thesis using p_pos_loop_PyInt [of rest d pp] by simp
qed

text \<open>On a positive grid every rank below the processor count gets one coordinate per
  dimension, each within its grid factor.\<close>

lemma p_pos_loop_bounds:
  "\<forall>x\<in>set P. 0 < x \<Longrightarrow> 0 \<le> r \<Longrightarrow> r < prod_list P \<Longrightarrow>
   \<exists>cs. p_pos_loop P (Integer r) = Inr (map Whole cs) \<and> length cs = length P \<and>
        (\<forall>i<length P. 0 \<le> cs ! i \<and> cs ! i < P ! i)"
proof (induction P arbitrary: r)
  case Nil
  then show ?case by simp
next
  case (Cons d rest)
  let ?s = "prod_list rest"
  have s: "0 < ?s" using Cons.prems(1) by (simp add: prod_list_pos)
  have m: "0 \<le> r mod ?s" "r mod ?s < ?s" using s by simp_all
  from Cons.IH [OF _ m] Cons.prems(1)
  obtain cs where cs: "p_pos_loop rest (Integer (r mod ?s)) = Inr (map Whole cs)" "length cs = length rest"
    "\<forall>i<length rest. 0 \<le> cs ! i \<and> cs ! i < rest ! i" by auto
  have q0: "0 \<le> r div ?s" using Cons.prems(2) s by (simp add: pos_imp_zdiv_nonneg_iff)
  have "r < d * ?s" using Cons.prems(3) by simp
  then have q1: "r div ?s < d" using s by (simp add: int_div_less)
  have eq: "p_pos_loop (d # rest) (Integer r) = Inr (map Whole (r div ?s # cs))"
    using s cs(1) by (simp add: p_pos_loop_Integer_Cons del: p_pos_loop.simps(2))
  have "\<forall>i<length (d # rest). 0 \<le> (r div ?s # cs) ! i \<and> (r div ?s # cs) ! i < (d # rest) ! i"
  proof (intro allI impI)
    fix i assume "i < length (d # rest)"
    then show "0 \<le> (r div ?s # cs) ! i \<and> (r div ?s # cs) ! i < (d # rest) ! i"
      using q0 q1 cs(3) by (cases i) simp_all
  qed
  with eq cs(2) show ?case by (intro exI [of _ "r div ?s # cs"]) simp
qed

text \<open>Every coordinate within the grid factor of a dimension is the coordinate of some
  rank.\<close>

lemma p_pos_loop_onto:
  "\<forall>x\<in>set P. 0 < x \<Longrightarrow> i < length P \<Longrightarrow> 0 \<le> c \<Longrightarrow> c < P ! i \<Longrightarrow>
   \<exists>r cs. 0 \<le> r \<and> r < prod_list P \<and> p_pos_loop P (Integer r) = Inr (map Whole cs) \<and> cs ! i = c"
proof (induction P arbitrary: i)
  case Nil
  then show ?case by simp
next
  case (Cons d rest)
  let ?s = "prod_list rest"
  have s: "0 < ?s" using Cons.prems(1) by (simp add: prod_list_pos)
  have d: "0 < d" using Cons.prems(1) by simp
  show ?case
  proof (cases i)
    case 0
    let ?r = "c * ?s"
    have c: "c < d" using Cons.prems(4) 0 by simp
    have r0: "0 \<le> ?r" using Cons.prems(3) s by simp
    have r1: "?r < prod_list (d # rest)" using c s by simp
    from p_pos_loop_bounds [OF Cons.prems(1) r0 r1]
    obtain cs where cs: "p_pos_loop (d # rest) (Integer ?r) = Inr (map Whole cs)" by blast
    have "cs ! 0 = c"
      using cs s
      by (auto simp add: p_pos_loop_Integer_Cons simp del: p_pos_loop.simps(2) split: sum.splits)
    with r0 r1 cs 0 show ?thesis by blast
  next
    case (Suc j)
    have "\<exists>r cs. 0 \<le> r \<and> r < ?s \<and> p_pos_loop rest (Integer r) = Inr (map Whole cs) \<and> cs ! j = c"
      using Cons.IH [of j] Cons.prems Suc by simp
    then obtain r cs where r: "0 \<le> r" "r < ?s" "p_pos_loop rest (Integer r) = Inr (map Whole cs)" "cs ! j = c"
      by blast
    have "?s \<le> d * ?s" using d s by simp
    then have r1: "r < prod_list (d # rest)" using r(2) by simp
    have e: "p_pos_loop (d # rest) (Integer r) = Inr (map Whole (0 # cs))"
      using s r by (simp add: p_pos_loop_Integer_Cons del: p_pos_loop.simps(2))
    have "(0 # cs) ! i = c" using r(4) Suc by simp
    with r(1) r1 e show ?thesis by blast
  qed
qed

text \<open>The code's exact quotient is the specification's rounded-down real quotient.\<close>

lemma length_unrank_spec: "length (unrank_spec P r) = length P"
  by (induction P arbitrary: r) (simp_all add: Let_def)

lemma p_pos_loop_spec: "0 \<notin> set P \<Longrightarrow> p_pos_loop P (Integer r) = Inr (map Whole (unrank_spec P r))"
proof (induction P arbitrary: r)
  case Nil
  then show ?case by simp
next
  case (Cons d rest)
  have s: "prod_list rest \<noteq> 0" using Cons.prems by (simp add: prod_list_zero_iff)
  have "0 \<notin> set rest" using Cons.prems by simp
  then have IH: "p_pos_loop rest (Integer r') = Inr (map Whole (unrank_spec rest r'))" for r'
    by (rule Cons.IH)
  show ?case using s IH
    by (simp add: div_py_Integer floor_divide_of_int_eq Let_def)
qed

subsection \<open>The range table\<close>

lemma iter_ranges_loop_lookup:
  "i + length xs \<le> length p \<Longrightarrow> i + length xs \<le> length loc \<Longrightarrow> distinct (map fst xs) \<Longrightarrow>
   \<exists>tab. iter_ranges_loop i xs p loc acc = Inr tab \<and>
     (\<forall>j<length xs. map_of tab (fst (xs ! j)) =
        Some (block (p ! (i + j)) (loc ! (i + j)) (snd (xs ! j)))) \<and>
     (\<forall>k. k \<notin> fst ` set xs \<longrightarrow> map_of tab k = map_of acc k)"
proof (induction xs arbitrary: i acc)
  case Nil
  then show ?case by simp
next
  case (Cons x xs)
  obtain var dim_size where x: "x = (var, dim_size)" by (cases x)
  let ?acc = "AList.update var (block (p ! i) (loc ! i) dim_size) acc"
  have "\<exists>tab. iter_ranges_loop (Suc i) xs p loc ?acc = Inr tab \<and>
     (\<forall>j<length xs. map_of tab (fst (xs ! j)) =
        Some (block (p ! (Suc i + j)) (loc ! (Suc i + j)) (snd (xs ! j)))) \<and>
     (\<forall>k. k \<notin> fst ` set xs \<longrightarrow> map_of tab k = map_of ?acc k)"
    using Cons.prems by (intro Cons.IH) simp_all
  then obtain tab where tab: "iter_ranges_loop (Suc i) xs p loc ?acc = Inr tab"
    "\<forall>j<length xs. map_of tab (fst (xs ! j)) =
        Some (block (p ! (Suc i + j)) (loc ! (Suc i + j)) (snd (xs ! j)))"
    "\<forall>k. k \<notin> fst ` set xs \<longrightarrow> map_of tab k = map_of ?acc k" by blast
  have run: "iter_ranges_loop i (x # xs) p loc acc = Inr tab"
    using Cons.prems(1,2) tab(1) x by simp
  have var: "var \<notin> fst ` set xs" using Cons.prems(3) x by simp
  have look: "\<forall>j<length (x # xs). map_of tab (fst ((x # xs) ! j)) =
        Some (block (p ! (i + j)) (loc ! (i + j)) (snd ((x # xs) ! j)))"
  proof (intro allI impI)
    fix j assume j: "j < length (x # xs)"
    show "map_of tab (fst ((x # xs) ! j)) =
        Some (block (p ! (i + j)) (loc ! (i + j)) (snd ((x # xs) ! j)))"
    proof (cases j)
      case 0
      then show ?thesis using tab(3) var x by (simp add: AList.update_conv')
    next
      case (Suc j')
      then show ?thesis using tab(2) j by simp
    qed
  qed
  have keep: "\<forall>k. k \<notin> fst ` set (x # xs) \<longrightarrow> map_of tab k = map_of acc k"
    using tab(3) x by (simp add: AList.update_conv')
  from run look keep show ?case by blast
qed

text \<open>With aligned fields, the table maps the name of dimension \<open>i\<close> to the block of its
  coordinate, cut at the global extent.\<close>

lemma iter_range_of_coords:
  assumes a: "aligned self N" and i: "i < N"
    and cs: "p_pos_loop (p_grid self) (PyInt r) = Inr cs" "length cs = N"
  shows "coord self r i = Some (cs ! i) \<and>
         iter_range self r i =
           Some (block (cs ! i) (loc_domain_dims self ! i) (dimensions_ordered self ! i))"
proof -
  have len: "length (p_grid self) = N" "length (loc_domain_dims self) = N"
    "length (dimensions_ordered self) = N" "length (variables self) = N"
    and dv: "distinct (variables self)"
    using a by (simp_all add: aligned_def)
  let ?xs = "zip (variables self) (dimensions_ordered self)"
  have lx: "length ?xs = N" using len by simp
  have dx: "distinct (map fst ?xs)" using dv len by simp
  have "\<exists>tab. iter_ranges_loop 0 ?xs cs (loc_domain_dims self) [] = Inr tab \<and>
     (\<forall>j<length ?xs. map_of tab (fst (?xs ! j)) =
        Some (block (cs ! (0 + j)) (loc_domain_dims self ! (0 + j)) (snd (?xs ! j)))) \<and>
     (\<forall>k. k \<notin> fst ` set ?xs \<longrightarrow> map_of tab k = map_of [] k)"
    using lx len cs(2) dx by (intro iter_ranges_loop_lookup) simp_all
  then obtain tab where tab: "iter_ranges_loop 0 ?xs cs (loc_domain_dims self) [] = Inr tab"
    "\<forall>j<length ?xs. map_of tab (fst (?xs ! j)) =
        Some (block (cs ! (0 + j)) (loc_domain_dims self ! (0 + j)) (snd (?xs ! j)))"
    by blast
  have "map_of tab (variables self ! i) =
     Some (block (cs ! i) (loc_domain_dims self ! i) (dimensions_ordered self ! i))"
    using tab(2) lx i len by simp
  then have "iter_range self r i =
     Some (block (cs ! i) (loc_domain_dims self ! i) (dimensions_ordered self ! i))"
    using cs(1) tab(1) i len by (simp add: iter_range_def iter_ranges_of_def)
  moreover have "coord self r i = Some (cs ! i)"
    using cs i by (simp add: coord_def)
  ultimately show ?thesis by blast
qed

lemma valid_grid_pos: "valid_decomposition self N \<Longrightarrow> \<forall>x\<in>set (p_grid self). 0 < x"
  by (auto simp add: valid_decomposition_def aligned_def in_set_conv_nth)

lemma rank_range:
  assumes v: "valid_decomposition self N" and N: "2 \<le> N" and i: "i < N"
    and r: "0 \<le> r" "r < prod_list (p_grid self)"
  shows "\<exists>c. coord self r i = Some (Whole c) \<and> 0 \<le> c \<and> c < p_grid self ! i \<and>
           iter_range self r i =
             Some (c * loc_domain_dims self ! i,
                   min ((c + 1) * loc_domain_dims self ! i) (dimensions_ordered self ! i))"
proof -
  have a: "aligned self N" using v by (simp add: valid_decomposition_def)
  then have len: "length (p_grid self) = N" by (simp add: aligned_def)
  from p_pos_loop_bounds [OF valid_grid_pos [OF v] r]
  obtain cs where cs: "p_pos_loop (p_grid self) (Integer r) = Inr (map Whole cs)"
    "length cs = length (p_grid self)"
    "\<forall>i<length (p_grid self). 0 \<le> cs ! i \<and> cs ! i < p_grid self ! i" by blast
  have p: "p_pos_loop (p_grid self) (PyInt r) = Inr (map Whole cs)"
    using cs(1) N len by (simp add: p_pos_loop_two_dimensions)
  have l: "length (map Whole cs) = N" using cs(2) len by simp
  have "map Whole cs ! i = Whole (cs ! i)" using cs(2) len i by simp
  with iter_range_of_coords [OF a i p l] cs(3) i len show ?thesis by auto
qed

lemma rank_onto:
  assumes v: "valid_decomposition self N" and N: "2 \<le> N" and i: "i < N"
    and c: "0 \<le> c" "c < p_grid self ! i"
  shows "\<exists>r. 0 \<le> r \<and> r < prod_list (p_grid self) \<and> coord self r i = Some (Whole c)"
proof -
  have len: "length (p_grid self) = N"
    using v by (simp add: valid_decomposition_def aligned_def)
  have pos: "\<forall>x\<in>set (p_grid self). 0 < x" by (rule valid_grid_pos [OF v])
  from p_pos_loop_onto [OF pos _ c] i len
  obtain r cs where r: "0 \<le> r" "r < prod_list (p_grid self)"
    "p_pos_loop (p_grid self) (Integer r) = Inr (map Whole cs)" "cs ! i = c" by auto
  from p_pos_loop_bounds [OF pos r(1,2)]
  obtain cs' where "p_pos_loop (p_grid self) (Integer r) = Inr (map Whole cs')"
    "length cs' = length (p_grid self)" by blast
  with r(3) have "map Whole cs = map Whole cs'" "length cs' = N" using len by simp_all
  then have l: "length cs = N" by (metis length_map)
  have "p_pos_loop (p_grid self) (PyInt r) = Inr (map Whole cs)"
    using r(3) N len by (simp add: p_pos_loop_two_dimensions)
  then have "coord self r i = Some (Whole c)" using l r(4) i by (simp add: coord_def)
  with r(1,2) show ?thesis by blast
qed

subsection \<open>Coverage and partition on exact quotients\<close>

text \<open>With two or more dimensions every quotient is exact, and for a valid decomposition
  the ranges of a dimension partition its global extent.\<close>

lemma exact_coverage_partition:
  assumes v: "valid_decomposition self N" and N: "2 \<le> N" and i: "i < N"
  shows "(\<forall>r\<in>{0..<prod_list (p_grid self)}.
            \<exists>c a b. coord self r i = Some c \<and> iter_range self r i = Some (a, b)) \<and>
         (\<Union>r\<in>{0..<prod_list (p_grid self)}. range_set (iter_range self r i)) =
            {0..<dimensions_ordered self ! i} \<and>
         (\<forall>r\<in>{0..<prod_list (p_grid self)}. \<forall>r'\<in>{0..<prod_list (p_grid self)}.
            coord self r i \<noteq> coord self r' i \<longrightarrow>
            range_set (iter_range self r i) \<inter> range_set (iter_range self r' i) = {})"
proof -
  let ?P = "p_grid self ! i" and ?L = "loc_domain_dims self ! i"
  let ?G = "dimensions_ordered self ! i"
  let ?R = "{0..<prod_list (p_grid self)}"
  have L: "0 < ?L" and G: "?G \<le> ?L * ?P"
    using v i by (simp_all add: valid_decomposition_def)
  have rr: "\<exists>c. coord self r i = Some (Whole c) \<and> 0 \<le> c \<and> c < ?P \<and>
           iter_range self r i = Some (c * ?L, min ((c + 1) * ?L) ?G)" if "r \<in> ?R" for r
    using rank_range [OF v N i, of r] that by simp
  have succ: "\<forall>r\<in>?R. \<exists>c a b. coord self r i = Some c \<and> iter_range self r i = Some (a, b)"
    using rr by blast
  have sub: "range_set (iter_range self r i) \<subseteq> {0..<?G}" if "r \<in> ?R" for r
  proof -
    from rr [OF that] obtain c where c: "0 \<le> c"
      "iter_range self r i = Some (c * ?L, min ((c + 1) * ?L) ?G)" by blast
    have "0 \<le> c * ?L" using c(1) L by simp
    then show ?thesis using c(2) by auto
  qed
  have sup: "\<exists>r\<in>?R. x \<in> range_set (iter_range self r i)" if x: "x \<in> {0..<?G}" for x
  proof -
    let ?c = "x div ?L"
    have c0: "0 \<le> ?c" using x L by (simp add: pos_imp_zdiv_nonneg_iff)
    have "x < ?P * ?L" using x G by (simp add: mult.commute)
    then have c1: "?c < ?P" using L by (rule int_div_less [rotated])
    from rank_onto [OF v N i c0 c1] obtain r where r: "r \<in> ?R" "coord self r i = Some (Whole ?c)"
      by auto
    from rr [OF r(1)] r(2)
    have ir: "iter_range self r i = Some (?c * ?L, min ((?c + 1) * ?L) ?G)"
      by auto
    have lo: "?c * ?L \<le> x"
      using div_mult_mod_eq [of x ?L] pos_mod_sign [OF L, of x] by linarith
    have "(?c + 1) * ?L = ?c * ?L + ?L" by (simp add: algebra_simps)
    then have hi: "x < (?c + 1) * ?L"
      using div_mult_mod_eq [of x ?L] pos_mod_bound [OF L, of x] by linarith
    have "x \<in> range_set (iter_range self r i)" using ir lo hi x by simp
    with r(1) show ?thesis by blast
  qed
  have cover: "(\<Union>r\<in>?R. range_set (iter_range self r i)) = {0..<?G}"
    using sub sup by blast
  have disj: "range_set (iter_range self r i) \<inter> range_set (iter_range self r' i) = {}"
    if "r \<in> ?R" "r' \<in> ?R" "coord self r i \<noteq> coord self r' i" for r r'
  proof -
    from rr [OF that(1)] obtain c where c: "coord self r i = Some (Whole c)"
      "iter_range self r i = Some (c * ?L, min ((c + 1) * ?L) ?G)" by blast
    from rr [OF that(2)] obtain c' where c': "coord self r' i = Some (Whole c')"
      "iter_range self r' i = Some (c' * ?L, min ((c' + 1) * ?L) ?G)" by blast
    have ne: "c \<noteq> c'" using that(3) c(1) c'(1) by simp
    have False
      if x: "x \<in> range_set (iter_range self r i)" "x \<in> range_set (iter_range self r' i)"
      for x
    proof -
      have "x div ?L = c" using x(1) c(2) L by (intro block_unique) simp_all
      moreover have "x div ?L = c'" using x(2) c'(2) L by (intro block_unique) simp_all
      ultimately show False using ne by simp
    qed
    then show ?thesis by blast
  qed
  from succ cover disj show ?thesis by blast
qed

text \<open>There the coordinates are those of the specification's unranking, and the ranges
  those of its formula.\<close>

lemma exact_unranking_matches_spec:
  assumes a: "aligned self N" and N: "2 \<le> N" and r: "0 \<le> r" "r < prod_list (p_grid self)"
  shows "p_pos_loop (p_grid self) (PyInt r) = Inr (map Whole (unrank_spec (p_grid self) r)) \<and>
         (\<forall>i<N. coord self r i = Some (Whole (unrank_spec (p_grid self) r ! i)) \<and>
                 iter_range self r i =
                   Some (range_spec (unrank_spec (p_grid self) r ! i)
                           (loc_domain_dims self ! i) (dimensions_ordered self ! i)))"
proof -
  have len: "length (p_grid self) = N" using a by (simp add: aligned_def)
  have "prod_list (p_grid self) \<noteq> 0" using r by simp
  then have nz: "0 \<notin> set (p_grid self)" by (simp add: prod_list_zero_iff)
  have cs: "p_pos_loop (p_grid self) (PyInt r) = Inr (map Whole (unrank_spec (p_grid self) r))"
    using p_pos_loop_spec [OF nz, of r] N len by (simp add: p_pos_loop_two_dimensions)
  have l: "length (map Whole (unrank_spec (p_grid self) r)) = N"
    using len by (simp add: length_unrank_spec)
  have "\<forall>i<N. coord self r i = Some (Whole (unrank_spec (p_grid self) r ! i)) \<and>
                 iter_range self r i =
                   Some (range_spec (unrank_spec (p_grid self) r ! i)
                           (loc_domain_dims self ! i) (dimensions_ordered self ! i))"
    using iter_range_of_coords [OF a _ cs l] len
    by (simp add: range_spec_def length_unrank_spec)
  with cs show ?thesis by blast
qed

subsection \<open>One dimension: float quotients\<close>

lemma one_dimension_rank:
  assumes "0 \<le> r" "r < 2 ^ 60"
  shows "get_data_decomposition one_dimension r =
     ([], Inr [(''A'', [(''i'', (round53 (round53 r),
                               min (round53 (round53 (round53 r + 1))) (2 ^ 60)))])])"
proof -
  have "round53 r \<le> 2 * r" by (rule round53_le_double [OF assms(1)])
  also have "\<dots> < 2 * 2 ^ 60" using assms(2) by simp
  also have "\<dots> \<le> (2::int) ^ 1024" by simp
  finally have "\<bar>round53 r\<bar> < 2 ^ 1024" using round53_nonneg [OF assms(1)] by simp
  then have b: "\<not> 2 ^ 1024 \<le> \<bar>round53 r\<bar>" by simp
  have p: "p_pos_loop [2 ^ 60] (PyInt r) = Inr [Float (round53 r)]"
    using b by (simp add: div_py_def sp_prod_def)
  have r1: "round53 1 = 1" by (rule round53_exact) simp
  show ?thesis
    using assms(2) p
    by (simp add: get_data_decomposition_def iter_ranges_of_def one_dimension_def r1)
qed

lemma one_dimension_assigned:
  assumes "0 \<le> r" "r < 2 ^ 60"
  shows "assigned one_dimension r ''A'' ''i'' =
     Some (round53 (round53 r), min (round53 (round53 (round53 r + 1))) (2 ^ 60))"
  by (simp add: assigned_def one_dimension_rank [OF assms])

lemma round53_2_53:
  "round53 9007199254740991 = 9007199254740991"
  "round53 9007199254740992 = 9007199254740992"
  "round53 9007199254740993 = 9007199254740992"
proof -
  show "round53 9007199254740991 = 9007199254740991" by (rule round53_exact) simp
  show "round53 9007199254740992 = 9007199254740992" using round53_values(2) by simp
  show "round53 9007199254740993 = 9007199254740992" using round53_values(3) by simp
qed

lemma one_dimension_gap:
  assumes "0 \<le> r" "r < 2 ^ 60"
  shows "2 ^ 53 \<notin> range_set (assigned one_dimension r ''A'' ''i'')"
proof (cases "r < 2 ^ 53")
  case True
  have e1: "round53 r = r" using assms(1) True by (intro round53_exact) simp
  have e2: "round53 (r + 1) = r + 1"
  proof (cases "r + 1 = 2 ^ 53")
    case True
    then show ?thesis using round53_2_53(2) by simp
  next
    case False
    with \<open>r < 2 ^ 53\<close> assms(1) show ?thesis by (intro round53_exact) simp
  qed
  show ?thesis using True by (simp add: one_dimension_assigned [OF assms] e1 e2)
next
  case False
  then have big: "2 ^ 53 \<le> r" by simp
  let ?v = "round53 r"
  have v: "2 ^ 53 \<le> ?v" by (rule round53_large [OF big])
  have i: "round53 ?v = ?v" by (rule round53_idem [OF big])
  show ?thesis
  proof (cases "?v = 2 ^ 53")
    case True
    then show ?thesis
      by (simp add: one_dimension_assigned [OF assms] round53_2_53)
  next
    case False
    with v have "2 ^ 53 < ?v" by simp
    then show ?thesis by (simp add: one_dimension_assigned [OF assms] i)
  qed
qed

text \<open>
  Claim C1. The claim asks that, for every valid decomposition, the ranges assigned to the
  ranks below the processor count cover \<open>[0, globalDims[i])\<close> in every dimension. On a grid
  with one dimension the only suffix product is \<^verbatim>\<open>sp.prod([])\<close>, the Python \<^verbatim>\<open>int\<close> 1, and
  the rank is a Python \<^verbatim>\<open>int\<close>, so that line 38 divides two Python \<^verbatim>\<open>int\<close>s with \<^verbatim>\<open>/\<close> and
  the coordinate is a float. For the valid decomposition with \<^verbatim>\<open>p_grid = [2**60]\<close>,
  \<^verbatim>\<open>loc_domain_dims = [1]\<close> and \<^verbatim>\<open>dimensions_ordered = [2**60]\<close>, the call for rank
  \<open>2^53 - 1\<close> returns the range \<open>(2^53 - 1, 2^53)\<close>, the call for rank \<open>2^53\<close> the empty
  range \<open>(2^53, 2^53)\<close>, and the index \<open>2^53\<close> is in the range that the call returns for
  no rank below the processor count.
\<close>

theorem float_ranks_leave_a_gap:
  "p_grid one_dimension = [2 ^ 60] \<and> loc_domain_dims one_dimension = [1] \<and>
   dimensions_ordered one_dimension = [2 ^ 60] \<and>
   get_data_decomposition one_dimension (2 ^ 53 - 1) =
     ([], Inr [(''A'', [(''i'', (2 ^ 53 - 1, 2 ^ 53))])]) \<and>
   get_data_decomposition one_dimension (2 ^ 53) =
     ([], Inr [(''A'', [(''i'', (2 ^ 53, 2 ^ 53))])]) \<and>
   2 ^ 53 \<in> {0..<dimensions_ordered one_dimension ! 0} \<and>
   2 ^ 53 \<notin> (\<Union>r\<in>{0..<prod_list (p_grid one_dimension)}.
                 range_set (assigned one_dimension r ''A'' ''i''))"
proof -
  have f: "p_grid one_dimension = [2 ^ 60]" "loc_domain_dims one_dimension = [1]"
    "dimensions_ordered one_dimension = [2 ^ 60]" by (simp_all add: one_dimension_def)
  have a: "get_data_decomposition one_dimension (2 ^ 53 - 1) =
     ([], Inr [(''A'', [(''i'', (2 ^ 53 - 1, 2 ^ 53))])])"
    using one_dimension_rank [of "2 ^ 53 - 1"] by (simp add: round53_2_53)
  have b: "get_data_decomposition one_dimension (2 ^ 53) =
     ([], Inr [(''A'', [(''i'', (2 ^ 53, 2 ^ 53))])])"
    using one_dimension_rank [of "2 ^ 53"] by (simp add: round53_2_53)
  have c: "2 ^ 53 \<in> {0..<dimensions_ordered one_dimension ! 0}" by (simp add: f)
  have d: "2 ^ 53 \<notin> (\<Union>r\<in>{0..<prod_list (p_grid one_dimension)}.
                 range_set (assigned one_dimension r ''A'' ''i''))"
    using one_dimension_gap by (auto simp add: f)
  from f a b c d show ?thesis by blast
qed

text \<open>
  Claim C2. The claim asks that the coordinate of dimension \<open>i\<close> is the rank divided by the
  suffix product and rounded down, computed with exact integer division. On the grid
  \<^verbatim>\<open>[2**60]\<close> the coordinate of rank \<open>2^53 + 1\<close> is the float \<open>2^53\<close>, where the
  specification's unranking gives \<open>2^53 + 1\<close>, and the call returns the empty range
  \<open>(2^53, 2^53)\<close>, where the specification's range is \<open>(2^53 + 1, 2^53 + 2)\<close>. On the
  grid \<^verbatim>\<open>[2, 2]\<close> of example A every quotient is exact and the calls for ranks 0 to 3
  return the ranges of the example.
\<close>

theorem float_coordinate_is_not_the_floor:
  "coord one_dimension (2 ^ 53 + 1) 0 = Some (Float (2 ^ 53)) \<and>
   unrank_spec (p_grid one_dimension) (2 ^ 53 + 1) = [2 ^ 53 + 1] \<and>
   get_data_decomposition one_dimension (2 ^ 53 + 1) =
     ([], Inr [(''A'', [(''i'', (2 ^ 53, 2 ^ 53))])]) \<and>
   range_spec (2 ^ 53 + 1) 1 (2 ^ 60) = (2 ^ 53 + 1, 2 ^ 53 + 2) \<and>
   get_data_decomposition exampleA 0 =
     ([], Inr [(''A'', [(''i'', (0, 4)), (''j'', (0, 4))])]) \<and>
   get_data_decomposition exampleA 1 =
     ([], Inr [(''A'', [(''i'', (0, 4)), (''j'', (4, 8))])]) \<and>
   get_data_decomposition exampleA 2 =
     ([], Inr [(''A'', [(''i'', (4, 8)), (''j'', (0, 4))])]) \<and>
   get_data_decomposition exampleA 3 =
     ([], Inr [(''A'', [(''i'', (4, 8)), (''j'', (4, 8))])])"
proof -
  have b: "\<not> 2 ^ 1024 \<le> \<bar>(2::int) ^ 53\<bar>" by simp
  have c: "coord one_dimension (2 ^ 53 + 1) 0 = Some (Float (2 ^ 53))"
    using b by (simp add: coord_def one_dimension_def div_py_def sp_prod_def round53_2_53)
  have u: "unrank_spec (p_grid one_dimension) (2 ^ 53 + 1) = [2 ^ 53 + 1]"
    by (simp add: one_dimension_def Let_def)
  have g: "get_data_decomposition one_dimension (2 ^ 53 + 1) =
     ([], Inr [(''A'', [(''i'', (2 ^ 53, 2 ^ 53))])])"
    using one_dimension_rank [of "2 ^ 53 + 1"] by (simp add: round53_2_53)
  have s: "range_spec (2 ^ 53 + 1) 1 (2 ^ 60) = (2 ^ 53 + 1, 2 ^ 53 + 2)"
    by (simp add: range_spec_def)
  have ex: "get_data_decomposition exampleA 0 =
     ([], Inr [(''A'', [(''i'', (0, 4)), (''j'', (0, 4))])])"
    "get_data_decomposition exampleA 1 =
     ([], Inr [(''A'', [(''i'', (0, 4)), (''j'', (4, 8))])])"
    "get_data_decomposition exampleA 2 =
     ([], Inr [(''A'', [(''i'', (4, 8)), (''j'', (0, 4))])])"
    "get_data_decomposition exampleA 3 =
     ([], Inr [(''A'', [(''i'', (4, 8)), (''j'', (4, 8))])])"
    by (simp_all add: get_data_decomposition_def iter_ranges_of_def exampleA_def div_py_def
        sp_prod_def)
  from c u g s ex show ?thesis by blast
qed

subsection \<open>Idle ranks\<close>

text \<open>
  Claim C6. For every rank \<open>r \<ge> product(processorGrid)\<close> the call returns the empty
  mapping, raises nothing, and prints exactly the idle-rank message.
\<close>

theorem idle_rank_empty:
  "prod_list (p_grid self) \<le> pp \<Longrightarrow>
   get_data_decomposition self pp = ([IdleRank (prod_list (p_grid self)) pp], Inr [])"
  by (simp add: get_data_decomposition_def)

theorem idle_rank_empty_witness:
  "prod_list (p_grid exampleA) \<le> 4 \<and>
   get_data_decomposition exampleA 4 = ([IdleRank 4 4], Inr [])"
proof -
  have h: "prod_list (p_grid exampleA) \<le> 4" by (simp add: exampleA_def)
  from idle_rank_empty [OF h] show ?thesis using h by (simp add: exampleA_def)
qed

section \<open>Properties of the per-array composition\<close>

subsection \<open>The three loops\<close>

lemma its_loop_error:
  "its_loop its tab rs = Inl e \<Longrightarrow> \<exists>it\<in>set its. e = KeyError it \<and> map_of tab it = None"
  by (induction its arbitrary: rs) (auto split: option.splits)

lemma its_loop_missing:
  "it \<in> set its \<Longrightarrow> map_of tab it = None \<Longrightarrow> \<exists>e. its_loop its tab rs = Inl e"
  by (induction its arbitrary: rs) (auto split: option.splits)

lemma its_loop_total:
  "\<forall>it\<in>set its. map_of tab it \<noteq> None \<Longrightarrow> \<exists>rs'. its_loop its tab rs = Inr rs'"
  by (induction its arbitrary: rs) (auto split: option.splits)

lemma accesses_loop_error:
  "accesses_loop accs tab rs = Inl e \<Longrightarrow> \<exists>it. e = KeyError it \<and> map_of tab it = None"
proof (induction accs arbitrary: rs)
  case Nil
  then show ?case by simp
next
  case (Cons x accs)
  obtain access pars where x: "x = (access, pars)" by (cases x)
  show ?case
  proof (cases "its_loop (split_star access) tab []")
    case (Inl e')
    then have "e = e'" using Cons.prems x by simp
    with its_loop_error [OF Inl] show ?thesis by blast
  next
    case (Inr rs')
    then have "accesses_loop accs tab (Some rs') = Inl e" using Cons.prems x by simp
    then show ?thesis by (rule Cons.IH)
  qed
qed

lemma accesses_loop_missing:
  "(access, pars) \<in> set accs \<Longrightarrow> it \<in> set (split_star access) \<Longrightarrow> map_of tab it = None \<Longrightarrow>
   \<exists>e. accesses_loop accs tab rs = Inl e"
proof (induction accs arbitrary: rs)
  case Nil
  then show ?case by simp
next
  case (Cons x accs)
  obtain access' pars' where x: "x = (access', pars')" by (cases x)
  show ?case
  proof (cases "its_loop (split_star access') tab []")
    case (Inl e')
    then show ?thesis using x by simp
  next
    case (Inr rs')
    have "(access, pars) \<noteq> x"
    proof
      assume "(access, pars) = x"
      then have "access' = access" using x by simp
      with its_loop_missing [OF Cons.prems(2,3), of "[]"] Inr show False by simp
    qed
    then have "(access, pars) \<in> set accs" using Cons.prems(1) by simp
    from Cons.IH [OF this Cons.prems(2,3)] show ?thesis using x Inr by simp
  qed
qed

lemma accesses_loop_last:
  "accs \<noteq> [] \<Longrightarrow> accesses_loop accs tab rs = Inr x \<Longrightarrow>
   \<exists>R. x = Some R \<and> its_loop (split_star (fst (last accs))) tab [] = Inr R"
proof (induction accs arbitrary: rs)
  case Nil
  then show ?case by simp
next
  case (Cons y accs)
  obtain access pars where y: "y = (access, pars)" by (cases y)
  from Cons.prems(2) y obtain R where R: "its_loop (split_star access) tab [] = Inr R"
    "accesses_loop accs tab (Some R) = Inr x" by (auto split: sum.splits)
  show ?case
  proof (cases "accs = []")
    case True
    then show ?thesis using R y by simp
  next
    case False
    from Cons.IH [OF False R(2)] False show ?thesis by simp
  qed
qed

lemma accesses_loop_unbound:
  "accesses_loop accs tab rs = Inr None \<Longrightarrow> accs = [] \<and> rs = None"
proof (cases "accs = []")
  case True
  assume "accesses_loop accs tab rs = Inr None"
  with True show ?thesis by simp
next
  case False
  assume "accesses_loop accs tab rs = Inr None"
  from accesses_loop_last [OF False this] show ?thesis by simp
qed

lemma accesses_loop_total:
  "\<forall>(access, pars)\<in>set accs. \<forall>it\<in>set (split_star access). map_of tab it \<noteq> None \<Longrightarrow>
   \<exists>x. accesses_loop accs tab rs = Inr x"
proof (induction accs arbitrary: rs)
  case Nil
  then show ?case by simp
next
  case (Cons y accs)
  obtain access pars where y: "y = (access, pars)" by (cases y)
  have "\<forall>it\<in>set (split_star access). map_of tab it \<noteq> None" using Cons.prems y by simp
  from its_loop_total [OF this, of "[]"] obtain R where
    R: "its_loop (split_star access) tab [] = Inr R" by blast
  have "\<exists>x. accesses_loop accs tab (Some R) = Inr x" using Cons.prems by (intro Cons.IH) simp
  then show ?case using y R by simp
qed

lemma arrays_loop_error:
  "arrays_loop arrs tab rs pd = Inl e \<Longrightarrow>
   (\<exists>it. e = KeyError it \<and> map_of tab it = None) \<or>
   (e = UnboundLocalError ''rngs'' \<and> rs = None \<and> (\<exists>arr rest. arrs = (arr, []) # rest))"
proof (induction arrs arbitrary: rs pd)
  case Nil
  then show ?case by simp
next
  case (Cons x arrs)
  obtain arr accs where x: "x = (arr, accs)" by (cases x)
  show ?case
  proof (cases "accesses_loop accs tab rs")
    case (Inl e')
    then have "e = e'" using Cons.prems x by simp
    with accesses_loop_error [OF Inl] show ?thesis by blast
  next
    case (Inr r)
    show ?thesis
    proof (cases r)
      case None
      with Inr have "accesses_loop accs tab rs = Inr None" by simp
      from accesses_loop_unbound [OF this] have "accs = []" "rs = None" by simp_all
      moreover have "e = UnboundLocalError ''rngs''" using Cons.prems x Inr None by simp
      ultimately show ?thesis using x by simp
    next
      case (Some R)
      then have "arrays_loop arrs tab (Some R) (AList.update arr R pd) = Inl e"
        using Cons.prems x Inr by simp
      from Cons.IH [OF this] show ?thesis by simp
    qed
  qed
qed

lemma arrays_loop_missing:
  "(arr, accs) \<in> set arrs \<Longrightarrow> (access, pars) \<in> set accs \<Longrightarrow> it \<in> set (split_star access) \<Longrightarrow>
   map_of tab it = None \<Longrightarrow> \<exists>e. arrays_loop arrs tab rs pd = Inl e"
proof (induction arrs arbitrary: rs pd)
  case Nil
  then show ?case by simp
next
  case (Cons x arrs)
  obtain arr' accs' where x: "x = (arr', accs')" by (cases x)
  show ?case
  proof (cases "accesses_loop accs' tab rs")
    case (Inl e')
    then show ?thesis using x by simp
  next
    case (Inr r)
    show ?thesis
    proof (cases r)
      case None
      then show ?thesis using x Inr by simp
    next
      case (Some R)
      have "(arr, accs) \<noteq> x"
      proof
        assume "(arr, accs) = x"
        then have "accs' = accs" using x by simp
        with accesses_loop_missing [OF Cons.prems(2,3,4), of rs] Inr show False by simp
      qed
      then have "(arr, accs) \<in> set arrs" using Cons.prems(1) by simp
      from Cons.IH [OF this Cons.prems(2,3,4)] show ?thesis using x Inr Some by simp
    qed
  qed
qed

lemma arrays_loop_keep:
  "arrays_loop arrs tab rs pd = Inr dst \<Longrightarrow> k \<notin> fst ` set arrs \<Longrightarrow>
   map_of dst k = map_of pd k"
proof (induction arrs arbitrary: rs pd)
  case Nil
  then show ?case by simp
next
  case (Cons x arrs)
  obtain arr accs where x: "x = (arr, accs)" by (cases x)
  from Cons.prems(1) x obtain R where R: "accesses_loop accs tab rs = Inr (Some R)"
    "arrays_loop arrs tab (Some R) (AList.update arr R pd) = Inr dst"
    by (auto split: sum.splits option.splits)
  have "k \<notin> fst ` set arrs" "k \<noteq> arr" using Cons.prems(2) x by auto
  with Cons.IH [OF R(2)] show ?case by (simp add: AList.update_conv')
qed

lemma arrays_loop_stale:
  "arrays_loop (pre @ (a, accs) # (b, []) # post) tab rs pd = Inr dst \<Longrightarrow> accs \<noteq> [] \<Longrightarrow>
   a \<noteq> b \<Longrightarrow> a \<notin> fst ` set post \<Longrightarrow> b \<notin> fst ` set post \<Longrightarrow>
   \<exists>R. its_loop (split_star (fst (last accs))) tab [] = Inr R \<and>
       map_of dst a = Some R \<and> map_of dst b = Some R"
proof (induction pre arbitrary: rs pd)
  case Nil
  from Nil.prems(1) obtain x where x: "accesses_loop accs tab rs = Inr x"
    by (auto split: sum.splits)
  from accesses_loop_last [OF Nil.prems(2) x] obtain R where
    R: "x = Some R" "its_loop (split_star (fst (last accs))) tab [] = Inr R" by blast
  have run: "arrays_loop post tab (Some R) (AList.update b R (AList.update a R pd)) = Inr dst"
    using Nil.prems(1) x R(1) by simp
  have "map_of dst a = Some R"
    using arrays_loop_keep [OF run Nil.prems(4)] Nil.prems(3) by (simp add: AList.update_conv')
  moreover have "map_of dst b = Some R"
    using arrays_loop_keep [OF run Nil.prems(5)] by (simp add: AList.update_conv')
  ultimately show ?case using R(2) by blast
next
  case (Cons y pre)
  obtain arr accs' where y: "y = (arr, accs')" by (cases y)
  from Cons.prems(1) y obtain R' where
    "arrays_loop (pre @ (a, accs) # (b, []) # post) tab (Some R') (AList.update arr R' pd) = Inr dst"
    by (auto split: sum.splits option.splits)
  from Cons.IH [OF this Cons.prems(2-5)] show ?case .
qed

lemma arrays_loop_total:
  "\<forall>(arr, accs)\<in>set arrs. accs \<noteq> [] \<and>
      (\<forall>(access, pars)\<in>set accs. \<forall>it\<in>set (split_star access). map_of tab it \<noteq> None) \<Longrightarrow>
   \<exists>dst. arrays_loop arrs tab rs pd = Inr dst"
proof (induction arrs arbitrary: rs pd)
  case Nil
  then show ?case by simp
next
  case (Cons y arrs)
  obtain arr accs where y: "y = (arr, accs)" by (cases y)
  have ne: "accs \<noteq> []"
    and ok: "\<forall>(access, pars)\<in>set accs. \<forall>it\<in>set (split_star access). map_of tab it \<noteq> None"
    using Cons.prems y by simp_all
  from accesses_loop_total [OF ok, of rs] obtain x where x: "accesses_loop accs tab rs = Inr x"
    by blast
  from accesses_loop_last [OF ne x] obtain R where R: "x = Some R" by blast
  have "\<exists>dst. arrays_loop arrs tab (Some R) (AList.update arr R pd) = Inr dst"
    using Cons.prems by (intro Cons.IH) simp
  then show ?case using y x R by simp
qed

subsection \<open>Which access terms reach the result\<close>

text \<open>
  Claim C3. The claim asks that the entry of an array maps every constituent iterator of
  every one of its access terms. The code rebinds \<^verbatim>\<open>rngs\<close> to a fresh dict at the start of
  each access term and stores it once per array, after the inner loop: for the array
  \<open>A\<close> with the two access terms \<open>i*k\<close> and \<open>j\<close> the entry holds \<open>j\<close> only, although
  the range table knows \<open>i\<close>, \<open>j\<close> and \<open>k\<close>. One access term alone is resolved as the
  claim's example B says.
\<close>

theorem last_access_term_only:
  "get_data_decomposition two_terms 0 = ([], Inr [(''A'', [(''j'', (0, 4))])]) \<and>
   iter_ranges_of two_terms 0 = Inr [(''i'', (0, 4)), (''j'', (0, 4)), (''k'', (0, 8))] \<and>
   its_loop (split_star ''i*k'') [(''i'', (0, 4)), (''k'', (0, 8))] [] =
     Inr [(''i'', (0, 4)), (''k'', (0, 8))]"
  by (simp add: get_data_decomposition_def iter_ranges_of_def two_terms_def div_py_def sp_prod_def)

subsection \<open>Unresolved iterator symbols\<close>

text \<open>For a rank that passed the idle check and got its range table, an access term with
  a constituent symbol outside the table makes the call raise: the \<^verbatim>\<open>KeyError\<close> of a
  missing symbol, or, when the first array has no access term, the unbound \<^verbatim>\<open>rngs\<close>.\<close>

lemma unresolved_symbol_raises:
  assumes "\<not> prod_list (p_grid self) \<le> pp" and "iter_ranges_of self pp = Inr tab"
    and "(arr, accs) \<in> set (input_arrays self)" and "(access, pars) \<in> set accs"
    and "it \<in> set (split_star access)" and "map_of tab it = None"
  shows "\<exists>e. get_data_decomposition self pp = ([], Inl e) \<and>
           ((\<exists>it'. e = KeyError it' \<and> map_of tab it' = None) \<or>
            (e = UnboundLocalError ''rngs'' \<and> (\<exists>a rest. input_arrays self = (a, []) # rest)))"
proof -
  from arrays_loop_missing [OF assms(3-6)]
  obtain e where e: "arrays_loop (input_arrays self) tab None [] = Inl e" by blast
  from arrays_loop_error [OF e]
  have "(\<exists>it'. e = KeyError it' \<and> map_of tab it' = None) \<or>
        (e = UnboundLocalError ''rngs'' \<and> (\<exists>a rest. input_arrays self = (a, []) # rest))"
    by blast
  moreover have "get_data_decomposition self pp = ([], Inl e)"
    using assms(1,2) e by (simp add: get_data_decomposition_def)
  ultimately show ?thesis by blast
qed

text \<open>
  Claim C7. The claim asks for the range error whenever an access term has a constituent
  symbol without an entry in the range table. With the arrays \<open>A\<close>, without access terms,
  and \<open>B\<close>, read at \<open>i*z\<close>, the symbol \<open>z\<close> has no entry, and the call raises the
  unbound-variable error on \<^verbatim>\<open>rngs\<close> at line 56, for \<open>A\<close>, before \<open>z\<close> is looked up. With
  a first array that has an access term the same symbol raises the \<^verbatim>\<open>KeyError\<close> of line 55.
\<close>

theorem missing_binding_hides_unresolved_symbol:
  "\<not> prod_list (p_grid unknown_after_empty) \<le> 3 \<and>
   iter_ranges_of unknown_after_empty 3 = Inr [(''i'', (4, 8)), (''j'', (4, 8))] \<and>
   (''B'', [(''i*z'', ())]) \<in> set (input_arrays unknown_after_empty) \<and>
   ''z'' \<in> set (split_star ''i*z'') \<and>
   map_of [(''i'', (4, 8)), (''j'', (4::int, 8::int))] ''z'' = None \<and>
   get_data_decomposition unknown_after_empty 3 = ([], Inl (UnboundLocalError ''rngs'')) \<and>
   get_data_decomposition unknown_symbol 3 = ([], Inl (KeyError ''z''))"
  by (simp add: get_data_decomposition_def iter_ranges_of_def unknown_after_empty_def
      unknown_symbol_def div_py_def sp_prod_def)

subsection \<open>Arrays without access terms\<close>

text \<open>
  Claim C10. For a rank that passed the idle check and got its range table: if the first
  array has no access term, the call raises the unbound-variable error on \<^verbatim>\<open>rngs\<close>; if a
  call returns a distribution and an array without access terms directly follows an array
  with some, the later array's entry is the ranges resolved for the last access term of
  the preceding array; and when every array has an access term and every constituent
  symbol is in the table, the call returns a distribution.
\<close>

theorem unbound_rngs:
  "(\<not> prod_list (p_grid self) \<le> pp \<and> iter_ranges_of self pp = Inr tab \<and>
      input_arrays self = (arr, []) # rest \<longrightarrow>
      get_data_decomposition self pp = ([], Inl (UnboundLocalError ''rngs''))) \<and>
   (get_data_decomposition self pp = ([], Inr dst) \<and>
      input_arrays self = pre @ (a, accs) # (b, []) # post \<and> accs \<noteq> [] \<and>
      distinct (map fst (input_arrays self)) \<longrightarrow>
      (\<exists>tab' R. iter_ranges_of self pp = Inr tab' \<and>
         its_loop (split_star (fst (last accs))) tab' [] = Inr R \<and>
         map_of dst a = Some R \<and> map_of dst b = Some R)) \<and>
   (\<not> prod_list (p_grid self) \<le> pp \<and> iter_ranges_of self pp = Inr tab \<and>
      (\<forall>(arr, accs)\<in>set (input_arrays self). accs \<noteq> [] \<and>
         (\<forall>(access, pars)\<in>set accs. \<forall>it\<in>set (split_star access). map_of tab it \<noteq> None)) \<longrightarrow>
      (\<exists>dst'. get_data_decomposition self pp = ([], Inr dst')))"
proof (intro conjI impI)
  assume "\<not> prod_list (p_grid self) \<le> pp \<and> iter_ranges_of self pp = Inr tab \<and>
      input_arrays self = (arr, []) # rest"
  then show "get_data_decomposition self pp = ([], Inl (UnboundLocalError ''rngs''))"
    by (simp add: get_data_decomposition_def)
next
  assume h: "get_data_decomposition self pp = ([], Inr dst) \<and>
      input_arrays self = pre @ (a, accs) # (b, []) # post \<and> accs \<noteq> [] \<and>
      distinct (map fst (input_arrays self))"
  then have ni: "\<not> prod_list (p_grid self) \<le> pp"
    by (auto simp add: get_data_decomposition_def split: if_splits)
  with h obtain tab' where tab': "iter_ranges_of self pp = Inr tab'"
    "arrays_loop (input_arrays self) tab' None [] = Inr dst"
    by (auto simp add: get_data_decomposition_def split: sum.splits)
  have ia: "input_arrays self = pre @ (a, accs) # (b, []) # post" and ne: "accs \<noteq> []"
    and d: "distinct (map fst (input_arrays self))" using h by blast+
  have k: "a \<noteq> b" "a \<notin> fst ` set post" "b \<notin> fst ` set post"
    using d unfolding ia by auto
  from arrays_loop_stale [OF tab'(2) [unfolded ia] ne k] tab'(1)
  show "\<exists>tab' R. iter_ranges_of self pp = Inr tab' \<and>
         its_loop (split_star (fst (last accs))) tab' [] = Inr R \<and>
         map_of dst a = Some R \<and> map_of dst b = Some R" by blast
next
  assume h: "\<not> prod_list (p_grid self) \<le> pp \<and> iter_ranges_of self pp = Inr tab \<and>
      (\<forall>(arr, accs)\<in>set (input_arrays self). accs \<noteq> [] \<and>
         (\<forall>(access, pars)\<in>set accs. \<forall>it\<in>set (split_star access). map_of tab it \<noteq> None))"
  then have "\<exists>dst'. arrays_loop (input_arrays self) tab None [] = Inr dst'"
    by (intro arrays_loop_total) simp
  with h show "\<exists>dst'. get_data_decomposition self pp = ([], Inr dst')"
    by (simp add: get_data_decomposition_def)
qed

theorem unbound_rngs_witness:
  "\<not> prod_list (p_grid first_empty) \<le> 0 \<and>
   iter_ranges_of first_empty 0 = Inr [(''i'', (0, 4)), (''j'', (0, 4))] \<and>
   input_arrays first_empty = (''A'', []) # [(''B'', [(''i*j'', ())])] \<and>
   get_data_decomposition first_empty 0 = ([], Inl (UnboundLocalError ''rngs'')) \<and>
   get_data_decomposition later_empty 0 =
     ([], Inr [(''A'', [(''i'', (0, 4))]), (''B'', [(''i'', (0, 4))])]) \<and>
   input_arrays later_empty = [] @ (''A'', [(''j'', ()), (''i'', ())]) # (''B'', []) # [] \<and>
   distinct (map fst (input_arrays later_empty)) \<and>
   map_of [(''A'', [(''i'', (0::int, 4::int))]), (''B'', [(''i'', (0, 4))])] ''B'' =
     map_of [(''A'', [(''i'', (0::int, 4::int))]), (''B'', [(''i'', (0, 4))])] ''A''"
proof -
  have a1: "\<not> prod_list (p_grid first_empty) \<le> 0" by (simp add: first_empty_def)
  have a2: "iter_ranges_of first_empty 0 = Inr [(''i'', (0, 4)), (''j'', (0, 4))]"
    by (simp add: iter_ranges_of_def first_empty_def div_py_def sp_prod_def)
  have a3: "input_arrays first_empty = (''A'', []) # [(''B'', [(''i*j'', ())])]"
    by (simp add: first_empty_def)
  have A: "get_data_decomposition first_empty 0 = ([], Inl (UnboundLocalError ''rngs''))"
    using unbound_rngs [of first_empty 0 "[(''i'', (0, 4)), (''j'', (0, 4))]" "''A''"
        "[(''B'', [(''i*j'', ())])]"] a1 a2 a3 by blast
  have b1: "get_data_decomposition later_empty 0 =
     ([], Inr [(''A'', [(''i'', (0, 4))]), (''B'', [(''i'', (0, 4))])])"
    by (simp add: get_data_decomposition_def iter_ranges_of_def later_empty_def div_py_def sp_prod_def)
  have b2: "input_arrays later_empty = [] @ (''A'', [(''j'', ()), (''i'', ())]) # (''B'', []) # []"
    by (simp add: later_empty_def)
  have b3: "distinct (map fst (input_arrays later_empty))" by (simp add: later_empty_def)
  have b4: "[(''j'', ()), (''i'', ())] \<noteq> []" by simp
  have "\<exists>tab' R. iter_ranges_of later_empty 0 = Inr tab' \<and>
      its_loop (split_star (fst (last [(''j'', ()), (''i'', ())]))) tab' [] = Inr R \<and>
      map_of [(''A'', [(''i'', (0::int, 4::int))]), (''B'', [(''i'', (0, 4))])] ''A'' = Some R \<and>
      map_of [(''A'', [(''i'', (0::int, 4::int))]), (''B'', [(''i'', (0, 4))])] ''B'' = Some R"
    using unbound_rngs [where self = later_empty and pp = 0 and pre = "[]" and a = "''A''"
        and accs = "[(''j'', ()), (''i'', ())]" and b = "''B''" and post = "[]"
        and dst = "[(''A'', [(''i'', (0, 4))]), (''B'', [(''i'', (0, 4))])]"]
      b1 b2 b3 b4 by blast
  then have B: "map_of [(''A'', [(''i'', (0::int, 4::int))]), (''B'', [(''i'', (0, 4))])] ''B'' =
     map_of [(''A'', [(''i'', (0::int, 4::int))]), (''B'', [(''i'', (0, 4))])] ''A''"
    by auto
  show ?thesis using a1 a2 a3 A b1 b2 b3 B by blast
qed

section \<open>Properties of the orchestrators\<close>

subsection \<open>Runs and their events\<close>

lemma bind_run_Inr:
  "bind_run m f = (tr, Inr y) \<Longrightarrow>
   \<exists>tr1 x tr2. m = (tr1, Inr x) \<and> f x = (tr2, Inr y) \<and> tr = tr1 @ tr2"
  by (auto simp add: bind_run_def split: prod.splits sum.splits)

lemma events_bind_run:
  "set (fst (bind_run m f)) =
     set (fst m) \<union> (case snd m of Inl e \<Rightarrow> {} | Inr x \<Rightarrow> set (fst (f x)))"
  by (auto simp add: bind_run_def split: prod.splits sum.splits)

lemma events_call: "set (fst (call ev r)) = {ev}"
  by (simp add: call_def)

lemma events_ret: "set (fst (ret x)) = {}"
  by (simp add: ret_def)

lemma events_open_session:
  "set (fst (open_session env)) \<subseteq>
     {ParseParams} \<union> range (\<lambda>(c, s). SolverInit c s) \<union> range StartSolver \<union> range SetTimeout"
  by (auto simp add: open_session_def events_bind_run events_call events_ret
      split: sum.splits)

lemma subgraphs_loop_einsum_events:
  "subgraphs_loop_einsum env params gs sgs = (tr, r) \<Longrightarrow> \<forall>ev\<in>set tr. is_init_decomposition ev"
proof (induction sgs arbitrary: tr r)
  case Nil
  then show ?case by (auto simp add: ret_def)
next
  case (Cons subgr rest)
  obtain tr' r' where rec: "subgraphs_loop_einsum env params gs rest = (tr', r')"
    by (cases "subgraphs_loop_einsum env params gs rest")
  from Cons.IH [OF rec] have IH: "\<forall>ev\<in>set tr'. is_init_decomposition ev" .
  with Cons.prems rec show ?case
    by (auto simp add: bind_run_def call_def ret_def split: sum.splits if_splits)
qed

lemma subgraphs_loop_einsum_copies:
  "subgraphs_loop_einsum env params gs sgs = (tr, Inr res) \<Longrightarrow>
   list_all2 (\<lambda>subgr io. \<exists>subgr'.
        (if gs then init_decomposition env subgr params = Inr subgr' else subgr' = subgr) \<and>
        io = copy_decomposition subgr' (snapshot subgr)) sgs res"
proof (induction sgs arbitrary: tr res)
  case Nil
  then show ?case by (simp add: ret_def)
next
  case (Cons subgr rest)
  from Cons.prems obtain subgr' tr' res' where
    i: "if gs then init_decomposition env subgr params = Inr subgr' else subgr' = subgr"
    and rec: "subgraphs_loop_einsum env params gs rest = (tr', Inr res')"
    and res: "res = copy_decomposition subgr' (snapshot subgr) # res'"
    by (auto simp add: bind_run_def call_def ret_def split: sum.splits prod.splits if_splits)
  from Cons.IH [OF rec] i res show ?case by auto
qed

lemma subgraphs_loop_einsum_ignores_connectivity:
  "subgraphs_loop_einsum (env\<lparr>number_weakly_connected_components := f\<rparr>) params gs sgs =
   subgraphs_loop_einsum env params gs sgs"
  by (induction sgs) simp_all

lemma einsum_Inr:
  assumes "perform_soap_analysis_einsum env s pa gs = (tr, Inr a)"
  shows "\<exists>tr0 params g Q' sgs tr3.
           (case pa of EmptyList \<Rightarrow> open_session env | Params p \<Rightarrow> ret p) = (tr0, Inr params) \<and>
           sdfg_gen env s = Inr g \<and> SDG env g params = Inr (sdg a) \<and>
           calculate_IO_of_SDG env (sdg a) params = Inr (Q', sgs) \<and>
           subgraphs_loop_einsum env params gs sgs = (tr3, Inr (subgraphs a)) \<and>
           tr = tr0 @ [SdfgGen s, SDGInit, CalculateIO] @ tr3"
proof -
  let ?m = "case pa of EmptyList \<Rightarrow> open_session env | Params p \<Rightarrow> ret p"
  from bind_run_Inr [OF assms [unfolded perform_soap_analysis_einsum_def]]
  obtain tr0 params t1 where
    m: "?m = (tr0, Inr params)" and
    s1: "bind_run (call (SdfgGen s) (sdfg_gen env s))
       (\<lambda>sdfg.
     bind_run (call SDGInit (SDG env sdfg params))
       (\<lambda>sdg.
     bind_run (call CalculateIO (calculate_IO_of_SDG env sdg params))
       (\<lambda>(Q, subgraphs).
     bind_run (subgraphs_loop_einsum env params gs subgraphs)
       (\<lambda>subgraphs_res.
     ret \<lparr>an_name = ''SDFG'', an_Q = Q, sdg = sdg, subgraphs = subgraphs_res\<rparr>)))) =
     (t1, Inr a)" and t: "tr = tr0 @ t1" by blast
  from bind_run_Inr [OF s1] obtain g t2 where
    g: "sdfg_gen env s = Inr g" and
    s2: "bind_run (call SDGInit (SDG env g params))
       (\<lambda>sdg.
     bind_run (call CalculateIO (calculate_IO_of_SDG env sdg params))
       (\<lambda>(Q, subgraphs).
     bind_run (subgraphs_loop_einsum env params gs subgraphs)
       (\<lambda>subgraphs_res.
     ret \<lparr>an_name = ''SDFG'', an_Q = Q, sdg = sdg, subgraphs = subgraphs_res\<rparr>))) =
     (t2, Inr a)" and t1: "t1 = [SdfgGen s] @ t2"
    by (auto simp add: call_def)
  from bind_run_Inr [OF s2] obtain d t3 where
    d: "SDG env g params = Inr d" and
    s3: "bind_run (call CalculateIO (calculate_IO_of_SDG env d params))
       (\<lambda>(Q, subgraphs).
     bind_run (subgraphs_loop_einsum env params gs subgraphs)
       (\<lambda>subgraphs_res.
     ret \<lparr>an_name = ''SDFG'', an_Q = Q, sdg = d, subgraphs = subgraphs_res\<rparr>)) =
     (t3, Inr a)" and t2: "t2 = [SDGInit] @ t3"
    by (auto simp add: call_def)
  from bind_run_Inr [OF s3] obtain Q' sgs t4 where
    q: "calculate_IO_of_SDG env d params = Inr (Q', sgs)" and
    s4: "bind_run (subgraphs_loop_einsum env params gs sgs)
       (\<lambda>subgraphs_res.
     ret \<lparr>an_name = ''SDFG'', an_Q = Q', sdg = d, subgraphs = subgraphs_res\<rparr>) =
     (t4, Inr a)" and t3: "t3 = [CalculateIO] @ t4"
    by (auto simp add: call_def)
  from bind_run_Inr [OF s4] obtain tr3 res where
    l: "subgraphs_loop_einsum env params gs sgs = (tr3, Inr res)" and
    a: "a = \<lparr>an_name = ''SDFG'', an_Q = Q', sdg = d, subgraphs = res\<rparr>" and t4: "t4 = tr3"
    by (auto simp add: ret_def)
  from a have "sdg a = d" "subgraphs a = res" by simp_all
  with m g d q l t t1 t2 t3 t4 show ?thesis by auto
qed

text \<open>\<^verbatim>\<open>perform_soap_analysis_einsum\<close> never calls \<^verbatim>\<open>end_solver\<close>.\<close>

lemma einsum_never_ends_solver:
  "EndSolver \<notin> set (fst (perform_soap_analysis_einsum env s pa gs))"
proof -
  have l: "EndSolver \<notin> set (fst (subgraphs_loop_einsum env params gs sgs))" for params sgs
    using subgraphs_loop_einsum_events
      [of env params gs sgs "fst (subgraphs_loop_einsum env params gs sgs)"
        "snd (subgraphs_loop_einsum env params gs sgs)"]
    by auto
  have o: "EndSolver \<notin> set (fst (open_session env))"
    using events_open_session [of env] by auto
  show ?thesis
    using l o
    by (cases pa)
      (auto simp add: perform_soap_analysis_einsum_def events_bind_run events_call events_ret
        split: sum.splits)
qed

text \<open>Once \<^verbatim>\<open>start_solver\<close> has returned, its event is in every run.\<close>

lemma einsum_session_started:
  assumes "parse_params env = Inr p"
    and "new_Solver env (only_cached p) (caching_solver_solutions p) = Inr sv"
  shows "StartSolver (remoteMatlab p) \<in> set (fst (perform_soap_analysis_einsum env s EmptyList gs))"
  using assms
  by (simp add: perform_soap_analysis_einsum_def open_session_def events_bind_run call_def)

subsection \<open>Snapshots of the einsum entry point\<close>

text \<open>\<^verbatim>\<open>perform_soap_analysis_einsum\<close> copies the three decomposition fields of every live
  subgraph into its snapshot, after \<^verbatim>\<open>init_decomposition\<close> when the flag is true.\<close>

lemma einsum_always_copies:
  assumes "perform_soap_analysis_einsum env s pa gs = (tr, Inr a)"
  shows "\<exists>params Q' sgs. calculate_IO_of_SDG env (sdg a) params = Inr (Q', sgs) \<and>
         list_all2 (\<lambda>subgr io. \<exists>subgr'.
              (if gs then init_decomposition env subgr params = Inr subgr' else subgr' = subgr) \<and>
              loc_domain_dims io = sg_loc_domain_dims subgr' \<and> p_grid io = sg_p_grid subgr' \<and>
              dimensions_ordered io = sg_dimensions_ordered subgr') sgs (subgraphs a)"
proof -
  from einsum_Inr [OF assms] obtain params Q' sgs tr3 where
    q: "calculate_IO_of_SDG env (sdg a) params = Inr (Q', sgs)"
    and l: "subgraphs_loop_einsum env params gs sgs = (tr3, Inr (subgraphs a))" by blast
  have "list_all2 (\<lambda>subgr io. \<exists>subgr'.
              (if gs then init_decomposition env subgr params = Inr subgr' else subgr' = subgr) \<and>
              loc_domain_dims io = sg_loc_domain_dims subgr' \<and> p_grid io = sg_p_grid subgr' \<and>
              dimensions_ordered io = sg_dimensions_ordered subgr') sgs (subgraphs a)"
    by (rule list_all2_mono [OF subgraphs_loop_einsum_copies [OF l]])
      (auto simp add: copy_decomposition_def)
  with q show ?thesis by blast
qed

subsection \<open>Opening the session in the graph-based entry point\<close>

text \<open>
  Claim C8. The claim asks that \<^verbatim>\<open>perform_soap_analysis\<close>, called without a session of the
  caller's, builds a solver from the parsed configuration, starts it and sets its timeout
  to 300 before it builds the SDG. The function has no \<^verbatim>\<open>params\<close> parameter, although its
  docstring lists one, and it assigns \<^verbatim>\<open>params\<close> in its body: line 84 reads an unbound
  local name. Every call raises there, before any collaborator is called.
\<close>

theorem params_unbound:
  "perform_soap_analysis env sdfg generate_schedule = ([], Inl (UnboundLocalError ''params''))"
  by (simp add: perform_soap_analysis_def soap_analysis_from_def raise_def)

subsection \<open>The connectivity assertion\<close>

text \<open>
  Claim C4. The claim asks that both entry points raise on an SDG with more than one
  weakly connected component, right after it is built and before the solver is asked.
  \<^verbatim>\<open>perform_soap_analysis_einsum\<close> never looks at the number of components: its result is
  the same whatever that number is, and with two components it goes on to
  \<^verbatim>\<open>calculate_IO_of_SDG\<close> and returns an analysis. \<^verbatim>\<open>perform_soap_analysis\<close> has the
  assertion, at line 93, and raises at line 84 before it builds the SDG.
\<close>

theorem einsum_skips_connectivity:
  "perform_soap_analysis_einsum (env\<lparr>number_weakly_connected_components := f\<rparr>) s pa gs =
     perform_soap_analysis_einsum env s pa gs \<and>
   number_weakly_connected_components (env_ok 2) 2 = Inr 2 \<and>
   perform_soap_analysis_einsum (env_ok 2) ''ij,jk->ik'' EmptyList True =
     ([ParseParams, SolverInit False True, StartSolver False, SetTimeout 300,
       SdfgGen ''ij,jk->ik'', SDGInit, CalculateIO, InitDecomposition 0],
      Inr \<lparr>an_name = ''SDFG'', an_Q = 7, sdg = 2,
           subgraphs = [copy_decomposition (decomposed live) (snapshot live)]\<rparr>) \<and>
   perform_soap_analysis (env_ok 2) () False = ([], Inl (UnboundLocalError ''params''))"
proof -
  have "perform_soap_analysis_einsum (env\<lparr>number_weakly_connected_components := f\<rparr>) s pa gs =
     perform_soap_analysis_einsum env s pa gs"
    by (cases pa) (simp_all add: perform_soap_analysis_einsum_def open_session_def
        subgraphs_loop_einsum_ignores_connectivity)
  moreover have "number_weakly_connected_components (env_ok 2) 2 = Inr 2"
    by (simp add: env_ok_def)
  moreover have "perform_soap_analysis_einsum (env_ok 2) ''ij,jk->ik'' EmptyList True =
     ([ParseParams, SolverInit False True, StartSolver False, SetTimeout 300,
       SdfgGen ''ij,jk->ik'', SDGInit, CalculateIO, InitDecomposition 0],
      Inr \<lparr>an_name = ''SDFG'', an_Q = 7, sdg = 2,
           subgraphs = [copy_decomposition (decomposed live) (snapshot live)]\<rparr>)"
    by (simp add: perform_soap_analysis_einsum_def open_session_def env_ok_def cfg_def
        bind_run_def call_def ret_def live_def)
  moreover have "perform_soap_analysis (env_ok 2) () False =
      ([], Inl (UnboundLocalError ''params''))"
    by (simp add: perform_soap_analysis_def soap_analysis_from_def raise_def)
  ultimately show ?thesis by blast
qed

subsection \<open>Releasing the session\<close>

text \<open>
  Claim C5, as stated, fails: the einsum entry point, called with the default \<^verbatim>\<open>params\<close>,
  starts a solver, and when \<^verbatim>\<open>calculate_IO_of_SDG\<close> raises the exception leaves the
  function without a call of \<^verbatim>\<open>end_solver\<close>.
\<close>

theorem session_left_open_counterexample:
  "start_solver env_solver_fails \<lparr>cached_only = False, caching_solutions = True\<rparr> False =
     Inr () \<and>
   perform_soap_analysis_einsum env_solver_fails ''ij,jk->ik'' EmptyList True =
     ([ParseParams, SolverInit False True, StartSolver False, SetTimeout 300,
       SdfgGen ''ij,jk->ik'', SDGInit, CalculateIO],
      Inl (ExternalError ''SolverTimeout'')) \<and>
   EndSolver \<notin> set [ParseParams, SolverInit False True, StartSolver False, SetTimeout 300,
       SdfgGen ''ij,jk->ik'', SDGInit, CalculateIO]"
  by (simp add: perform_soap_analysis_einsum_def open_session_def env_solver_fails_def
      env_ok_def cfg_def bind_run_def call_def ret_def)

text \<open>
  Claim C5, as amended. There is no handler around the body of either orchestrator. A call
  of \<^verbatim>\<open>perform_soap_analysis_einsum\<close> with the default \<^verbatim>\<open>params\<close> in which \<^verbatim>\<open>parse_params\<close>,
  the \<^verbatim>\<open>Solver\<close> constructor and \<^verbatim>\<open>start_solver\<close> have returned, and which then raises
  before the first call of \<^verbatim>\<open>init_decomposition\<close> (in \<^verbatim>\<open>set_timeout\<close>, \<^verbatim>\<open>sdfg_gen\<close>, the SDG
  constructor or \<^verbatim>\<open>calculate_IO_of_SDG\<close>), has started the solver and has not called
  \<^verbatim>\<open>end_solver\<close>: the exception leaves the function with the session open.
\<close>

theorem failure_leaves_session_open:
  assumes "parse_params env = Inr p"
    and "new_Solver env (only_cached p) (caching_solver_solutions p) = Inr sv"
    and "start_solver env sv (remoteMatlab p) = Inr ()"
    and "perform_soap_analysis_einsum env s EmptyList gs = (tr, Inl e)"
    and "\<forall>ev\<in>set tr. \<not> is_init_decomposition ev"
  shows "StartSolver (remoteMatlab p) \<in> set tr \<and> EndSolver \<notin> set tr"
  using einsum_session_started [OF assms(1,2), of s gs]
    einsum_never_ends_solver [of env s EmptyList gs] assms(4)
  by simp

theorem failure_leaves_session_open_witness:
  "parse_params env_sdg_fails = Inr cfg \<and>
   new_Solver env_sdg_fails (only_cached cfg) (caching_solver_solutions cfg) =
     Inr \<lparr>cached_only = False, caching_solutions = True\<rparr> \<and>
   start_solver env_sdg_fails \<lparr>cached_only = False, caching_solutions = True\<rparr>
     (remoteMatlab cfg) = Inr () \<and>
   perform_soap_analysis_einsum env_sdg_fails ''ij,jk->ik'' EmptyList True =
     ([ParseParams, SolverInit False True, StartSolver False, SetTimeout 300,
       SdfgGen ''ij,jk->ik'', SDGInit],
      Inl (ExternalError ''SDG'')) \<and>
   StartSolver (remoteMatlab cfg) \<in> set [ParseParams, SolverInit False True,
       StartSolver False, SetTimeout 300, SdfgGen ''ij,jk->ik'', SDGInit] \<and>
   EndSolver \<notin> set [ParseParams, SolverInit False True, StartSolver False, SetTimeout 300,
       SdfgGen ''ij,jk->ik'', SDGInit]"
proof -
  have h1: "parse_params env_sdg_fails = Inr cfg"
    by (simp add: env_sdg_fails_def env_ok_def)
  have h2: "new_Solver env_sdg_fails (only_cached cfg) (caching_solver_solutions cfg) =
     Inr \<lparr>cached_only = False, caching_solutions = True\<rparr>"
    by (simp add: env_sdg_fails_def env_ok_def cfg_def)
  have h3: "start_solver env_sdg_fails \<lparr>cached_only = False, caching_solutions = True\<rparr>
     (remoteMatlab cfg) = Inr ()"
    by (simp add: env_sdg_fails_def env_ok_def)
  have h4: "perform_soap_analysis_einsum env_sdg_fails ''ij,jk->ik'' EmptyList True =
     ([ParseParams, SolverInit False True, StartSolver False, SetTimeout 300,
       SdfgGen ''ij,jk->ik'', SDGInit],
      Inl (ExternalError ''SDG''))"
    by (simp add: perform_soap_analysis_einsum_def open_session_def env_sdg_fails_def
        env_ok_def cfg_def bind_run_def call_def ret_def)
  have h5: "\<forall>ev\<in>set [ParseParams, SolverInit False True, StartSolver False, SetTimeout 300,
       SdfgGen ''ij,jk->ik'', SDGInit]. \<not> is_init_decomposition ev" by simp
  from failure_leaves_session_open [OF h1 h2 h3 h4 h5] h1 h2 h3 h4 show ?thesis by blast
qed

subsection \<open>Decomposition fields of the snapshots\<close>

text \<open>
  Claim C9. The claim asks that \<^verbatim>\<open>perform_soap_analysis\<close> returns snapshots with empty
  decomposition fields when \<^verbatim>\<open>generate_schedule\<close> is false and with the fields of the live
  subgraphs when it is true. Lines 103 to 107 make that test, and no call reaches them:
  with the flag true, false or left at its default the call raises at line 84 and returns
  no snapshot. \<^verbatim>\<open>perform_soap_analysis_einsum\<close> copies the three fields whatever the flag
  is, and its default for the flag is true: without the flag the copy is of a subgraph on
  which \<^verbatim>\<open>init_decomposition\<close> ran, with the flag false of the subgraph as the solver left
  it.
\<close>

theorem graph_entry_returns_no_snapshot:
  "perform_soap_analysis env sdfg True = ([], Inl (UnboundLocalError ''params'')) \<and>
   perform_soap_analysis env sdfg False = ([], Inl (UnboundLocalError ''params'')) \<and>
   perform_soap_analysis_default env sdfg = ([], Inl (UnboundLocalError ''params'')) \<and>
   perform_soap_analysis_einsum (env_ok 1) ''ij,jk->ik'' EmptyList False =
     ([ParseParams, SolverInit False True, StartSolver False, SetTimeout 300,
       SdfgGen ''ij,jk->ik'', SDGInit, CalculateIO],
      Inr \<lparr>an_name = ''SDFG'', an_Q = 7, sdg = 1,
           subgraphs = [copy_decomposition live (snapshot live)]\<rparr>) \<and>
   p_grid (copy_decomposition live (snapshot live)) = [1, 1] \<and>
   perform_soap_analysis_einsum_default (env_ok 1) ''ij,jk->ik'' =
     ([ParseParams, SolverInit False True, StartSolver False, SetTimeout 300,
       SdfgGen ''ij,jk->ik'', SDGInit, CalculateIO, InitDecomposition 0],
      Inr \<lparr>an_name = ''SDFG'', an_Q = 7, sdg = 1,
           subgraphs = [copy_decomposition (decomposed live) (snapshot live)]\<rparr>) \<and>
   p_grid (copy_decomposition (decomposed live) (snapshot live)) = [2, 2]"
proof -
  have g: "perform_soap_analysis env sdfg b = ([], Inl (UnboundLocalError ''params''))" for b
    by (simp add: perform_soap_analysis_def soap_analysis_from_def raise_def)
  have d: "perform_soap_analysis_default env sdfg = ([], Inl (UnboundLocalError ''params''))"
    by (simp add: perform_soap_analysis_default_def g)
  have e1: "perform_soap_analysis_einsum (env_ok 1) ''ij,jk->ik'' EmptyList False =
     ([ParseParams, SolverInit False True, StartSolver False, SetTimeout 300,
       SdfgGen ''ij,jk->ik'', SDGInit, CalculateIO],
      Inr \<lparr>an_name = ''SDFG'', an_Q = 7, sdg = 1,
           subgraphs = [copy_decomposition live (snapshot live)]\<rparr>)"
    by (simp add: perform_soap_analysis_einsum_def open_session_def env_ok_def cfg_def
        bind_run_def call_def ret_def)
  have e2: "perform_soap_analysis_einsum_default (env_ok 1) ''ij,jk->ik'' =
     ([ParseParams, SolverInit False True, StartSolver False, SetTimeout 300,
       SdfgGen ''ij,jk->ik'', SDGInit, CalculateIO, InitDecomposition 0],
      Inr \<lparr>an_name = ''SDFG'', an_Q = 7, sdg = 1,
           subgraphs = [copy_decomposition (decomposed live) (snapshot live)]\<rparr>)"
    by (simp add: perform_soap_analysis_einsum_default_def perform_soap_analysis_einsum_def
        open_session_def env_ok_def cfg_def bind_run_def call_def ret_def live_def)
  have c1: "p_grid (copy_decomposition live (snapshot live)) = [1, 1]"
    by (simp add: copy_decomposition_def live_def)
  have c2: "p_grid (copy_decomposition (decomposed live) (snapshot live)) = [2, 2]"
    by (simp add: copy_decomposition_def decomposed_def)
  from g d e1 e2 c1 c2 show ?thesis by blast
qed

end
